theory Spec2Isabelle
  imports Main
begin

section \<open>Python values used by \<^verbatim>\<open>arcgis_corporate.py\<close>\<close>

text \<open>
  Exceptions are values. \<open>IndexError\<close>, \<open>TypeError\<close>, \<open>KeyError\<close>, \<open>AttributeError\<close>,
  \<open>ValueError\<close>, \<open>UnboundLocalError\<close>, \<open>OSError\<close> and its subclasses \<open>FileNotFoundError\<close>,
  \<open>FileExistsError\<close>, \<open>NotADirectoryError\<close> and \<open>IsADirectoryError\<close> are Python's built-in
  exceptions, \<open>OutOfBoundsDatetime\<close> is
  the one pandas raises. \<open>NotFoundError\<close> is the
  name the specification's error taxonomy uses; the module defines no such class and
  no function below returns it.
\<close>

datatype error =
    IndexError
  | TypeError
  | KeyError
  | AttributeError
  | ValueError
  | OutOfBoundsDatetime
  | UnboundLocalError
  | OSError
  | FileNotFoundError
  | FileExistsError
  | NotADirectoryError
  | IsADirectoryError
  | NotFoundError

type_synonym path = string

subsection \<open>Indexing a list: \<^verbatim>\<open>xs[i]\<close>\<close>

text \<open>Negative positions count from the end; anything else out of range raises.\<close>

definition py_index :: "'a list \<Rightarrow> int \<Rightarrow> error + 'a" where
  "py_index xs i =
     (if 0 \<le> i \<and> i < int (length xs) then Inr (xs ! nat i)
      else if - int (length xs) \<le> i \<and> i < 0 then Inr (xs ! nat (int (length xs) + i))
      else Inl IndexError)"

subsection \<open>Formatting an integer: \<^verbatim>\<open>f'{n}'\<close>\<close>

definition digit_char :: "nat \<Rightarrow> char" where
  "digit_char d = ''0123456789'' ! d"

fun str_nat :: "nat \<Rightarrow> string" where
  "str_nat n = (if n < 10 then [digit_char n] else str_nat (n div 10) @ [digit_char (n mod 10)])"

declare str_nat.simps [simp del]

definition is_digit :: "char \<Rightarrow> bool" where
  "is_digit c = (c \<in> set ''0123456789'')"

definition str_int :: "int \<Rightarrow> string" where
  "str_int i = (if i < 0 then CHR ''-'' # str_nat (nat (- i)) else str_nat (nat i))"

subsection \<open>\<^verbatim>\<open>os.path.join\<close> and \<^verbatim>\<open>str.replace\<close>\<close>

text \<open>
  \<^verbatim>\<open>os.path.join(a, b)\<close> of \<^verbatim>\<open>posixpath\<close>: a second component that starts with the
  separator replaces the first; an empty first component or one that ends with the
  separator is extended without a new separator.
\<close>

definition os_path_join :: "path \<Rightarrow> path \<Rightarrow> path" where
  "os_path_join a b =
     (if b \<noteq> [] \<and> hd b = CHR ''/'' then b
      else if a = [] \<or> last a = CHR ''/'' then a @ b
      else a @ ''/'' @ b)"

definition startswith :: "string \<Rightarrow> string \<Rightarrow> bool" where
  "startswith s old = (take (length old) s = old)"

text \<open>
  \<^verbatim>\<open>s.rstrip('/')\<close>, and \<^verbatim>\<open>os.path.dirname\<close> of \<^verbatim>\<open>posixpath\<close>: what stands before the last
  separator, with that separator, and then without the separators it ends with unless it
  is made of separators only.
\<close>

definition rstrip_sep :: "path \<Rightarrow> path" where
  "rstrip_sep p = rev (dropWhile (\<lambda>c. c = CHR ''/'') (rev p))"

definition os_path_dirname :: "path \<Rightarrow> path" where
  "os_path_dirname p =
     (let head = rev (dropWhile (\<lambda>c. c \<noteq> CHR ''/'') (rev p))
      in if rstrip_sep head \<noteq> [] then rstrip_sep head else head)"

text \<open>
  \<^verbatim>\<open>s.replace(old, new)\<close>: every occurrence of \<open>old\<close>, found from left to right without
  overlap, is replaced. (With an empty \<open>old\<close> Python puts \<open>new\<close> around every character.)
\<close>

function str_replace_ne :: "string \<Rightarrow> string \<Rightarrow> string \<Rightarrow> string" where
  "str_replace_ne old new s =
     (if s = [] \<or> old = [] then s
      else if startswith s old then new @ str_replace_ne old new (drop (length old) s)
      else hd s # str_replace_ne old new (tl s))"
  by pat_completeness auto
termination
  by (relation "measure (\<lambda>(old, new, s). length s)") (auto simp: neq_Nil_conv)

declare str_replace_ne.simps [simp del]

definition str_replace :: "string \<Rightarrow> string \<Rightarrow> string \<Rightarrow> string" where
  "str_replace s old new =
     (if old = [] then new @ concat (map (\<lambda>c. c # new) s) else str_replace_ne old new s)"

subsection \<open>Calendar fields of a timestamp\<close>

text \<open>
  Both \<^verbatim>\<open>datetime.utcfromtimestamp\<close> and \<^verbatim>\<open>pd.to_datetime(..., unit='ms')\<close> read a
  number of (milli)seconds since 1970-01-01 00:00:00 UTC in the proleptic Gregorian
  calendar. The day number is split into year, month and day the way the \<^verbatim>\<open>datetime\<close>
  module does it (\<^verbatim>\<open>_ord2ymd\<close>, on the ordinal whose day 1 is 0001-01-01).
\<close>

definition DAYS_IN_MONTH :: "int list" where
  "DAYS_IN_MONTH = [-1, 31, 28, 31, 30, 31, 30, 31, 31, 30, 31, 30, 31]"

definition DAYS_BEFORE_MONTH :: "int list" where
  "DAYS_BEFORE_MONTH = [-1, 0, 31, 59, 90, 120, 151, 181, 212, 243, 273, 304, 334]"

definition month_day :: "bool \<Rightarrow> int \<Rightarrow> int \<times> int" where
  "month_day leapyear n =
     (let month = (n + 50) div 32;
          preceding = DAYS_BEFORE_MONTH ! nat month + (if month > 2 \<and> leapyear then 1 else 0)
      in if preceding > n
         then (let month' = month - 1;
                   preceding' = preceding -
                     (DAYS_IN_MONTH ! nat month' + (if month' = 2 \<and> leapyear then 1 else 0))
               in (month', n - preceding' + 1))
         else (month, n - preceding + 1))"

definition ord2ymd :: "int \<Rightarrow> int \<times> int \<times> int" where
  "ord2ymd ordinal =
     (let n = ordinal - 1;
          n400 = n div 146097; n = n mod 146097;
          year = n400 * 400 + 1;
          n100 = n div 36524; n = n mod 36524;
          n4 = n div 1461; n = n mod 1461;
          n1 = n div 365; n = n mod 365;
          year = year + n100 * 100 + n4 * 4 + n1
      in if n1 = 4 \<or> n100 = 4 then (year - 1, 12, 31)
         else (year, month_day (n1 = 3 \<and> (n4 \<noteq> 24 \<or> n100 = 3)) n))"

record datetime =
  year :: int
  month :: int
  day :: int
  hour :: int
  minute :: int
  second :: int

definition utc_of_ms :: "int \<Rightarrow> datetime" where
  "utc_of_ms ms =
     (let days = ms div 86400000;
          secs = (ms mod 86400000) div 1000;
          (y, m, d) = ord2ymd (days + 719163)
      in \<lparr>year = y, month = m, day = d,
          hour = secs div 3600, minute = (secs mod 3600) div 60, second = secs mod 60\<rparr>)"

text \<open>
  \<^verbatim>\<open>datetime.utcfromtimestamp(created_date/1000)\<close> accepts the years 1 to 9999 and raises
  outside. (The quotient is a float; for a whole number of milliseconds in that range it
  is less than a millisecond away from the exact value, so the calendar fields are those
  of the exact value.)
\<close>

definition utcfromtimestamp :: "int \<Rightarrow> error + datetime" where
  "utcfromtimestamp ms =
     (if - 62135596800000 \<le> ms \<and> ms \<le> 253402300799999 then Inr (utc_of_ms ms)
      else Inl ValueError)"

text \<open>
  \<^verbatim>\<open>pd.to_datetime(..., unit='ms')\<close> holds nanoseconds in 64 bits: the years 1677 to 2262.
\<close>

definition to_datetime :: "int \<Rightarrow> error + datetime" where
  "to_datetime ms =
     (if - 9223372036854 \<le> ms \<and> ms \<le> 9223372036854 then Inr (utc_of_ms ms)
      else Inl OutOfBoundsDatetime)"

definition pad2 :: "int \<Rightarrow> string" where
  "pad2 v = (if 0 \<le> v \<and> v < 10 then CHR ''0'' # str_int v else str_int v)"

definition directive :: "char \<Rightarrow> datetime \<Rightarrow> string" where
  "directive c dt =
     (if c = CHR ''d'' then pad2 (day dt)
      else if c = CHR ''m'' then pad2 (month dt)
      else if c = CHR ''Y'' then str_int (year dt)
      else if c = CHR ''y'' then pad2 (year dt mod 100)
      else if c = CHR ''H'' then pad2 (hour dt)
      else if c = CHR ''M'' then pad2 (minute dt)
      else if c = CHR ''S'' then pad2 (second dt)
      else [CHR ''%'', c])"

fun strftime :: "datetime \<Rightarrow> string \<Rightarrow> string" where
  "strftime dt [] = []"
| "strftime dt [c] = [c]"
| "strftime dt (c # d # fmt) =
     (if c = CHR ''%'' then directive d dt @ strftime dt fmt else c # strftime dt (d # fmt))"

section \<open>The portal, the file system and the console\<close>

text \<open>
  What the \<^verbatim>\<open>arcgis\<close> package answers is not part of the module: a layer carries the
  answers as functions of the request. A feature is its \<^verbatim>\<open>attributes\<close> dictionary.
  \<^verbatim>\<open>connect_to_gis\<close> is taken as done: the functions below receive the portal it
  returns, under the name \<^verbatim>\<open>gis_login\<close> of the attribute it is stored in.
\<close>

record query_req =
  out_fields :: string
  where_clause :: string
  return_geometry :: bool
  order_by_fields :: string

type_synonym feature = "string \<rightharpoonup> int"

type_synonym dataframe = "string list list"

record csv_file =
  csv_data :: dataframe
  csv_index :: bool
  csv_decimal :: string
  csv_sep :: string

datatype node = Dir | File string | Csv csv_file

type_synonym filesystem = "path \<rightharpoonup> node"

record attachment =
  att_id :: int
  att_name :: string

record layer =
  hasAttachments :: bool
  query :: "query_req \<Rightarrow> feature list"
  query_df :: dataframe
  get_list :: "int \<Rightarrow> attachment list"
  download :: "int \<Rightarrow> int \<Rightarrow> path \<Rightarrow> filesystem \<Rightarrow> path list \<times> filesystem"

record item =
  layers :: "layer list"
  tables :: "layer list"

record content_item =
  item_id :: string
  update :: "path \<Rightarrow> bool"

record portal =
  content_get :: "string \<Rightarrow> item option"
  content_search :: "string \<Rightarrow> string \<Rightarrow> content_item list"

text \<open>
  A row of the log. While the run collects \<^verbatim>\<open>new_objects_control\<close>, \<open>created_date\<close> is a
  number of milliseconds and \<open>id_form\<close> and \<open>local\<close> are strings. In \<^verbatim>\<open>log_photos.json\<close>
  and in the data frames of the log the three are cells: a cell written as a string can
  come back from the file as a number.
\<close>

datatype cell = Str string | Num int

record ('d, 's) log_row =
  objectid :: int
  created_date :: 'd
  id_form :: 's
  local :: 's

type_synonym log_entry = "(cell, cell) log_row"

text \<open>Console output, one constructor for each \<^verbatim>\<open>print\<close> of the module.\<close>

datatype message =
    LogNotFound
  | FormToDownloadPhotos
  | NoNewPhotos
  | DownloadingPhoto nat nat
  | FileAlreadyExists int path
  | AllPhotosDownloaded
  | FormToDownload
  | UpdatedOk string
  | UpdateFailed string

text \<open>
  The state a run of \<^verbatim>\<open>get_photos\<close> acts on. \<open>files\<close> holds the photo folders and
  files, \<open>log_file\<close> the rows held by \<^verbatim>\<open>log_photos.json\<close> (\<open>None\<close> when the file does not
  exist; the log is kept apart from the other files), \<open>stdout\<close>
  what was printed, \<open>requests\<close> the queries sent (with the position of the layer or
  table), \<open>downloads\<close> the attachment downloads asked for (position, objectid,
  attachment id, folder), and \<open>new_objects_control\<close> the dictionary of that name.
\<close>

record state =
  files :: filesystem
  log_file :: "log_entry list option"
  stdout :: "message list"
  requests :: "(nat \<times> query_req) list"
  downloads :: "(nat \<times> int \<times> int \<times> path) list"
  new_objects_control :: "(int, string) log_row list"

definition print :: "message \<Rightarrow> state \<Rightarrow> state" where
  "print m st = st\<lparr>stdout := stdout st @ [m]\<rparr>"

text \<open>
  A file system maps a path, as it is spelled, to what is there; two spellings of one
  place are not identified, and the functions below spell a folder the way
  \<^verbatim>\<open>os.path.dirname\<close> returns it. The working directory \<^verbatim>\<open>.\<close> and the root are always
  there, and the empty path, which is what \<^verbatim>\<open>os.path.dirname\<close> returns for a bare file
  name, stands for the working directory when a folder is asked for.
\<close>

definition node_at :: "filesystem \<Rightarrow> path \<Rightarrow> node option" where
  "node_at fs p = (if p = ''.'' \<or> p = ''/'' then Some Dir else fs p)"

definition os_path_exists :: "filesystem \<Rightarrow> path \<Rightarrow> bool" where
  "os_path_exists fs p = (node_at fs p \<noteq> None)"

definition is_dir :: "filesystem \<Rightarrow> path \<Rightarrow> bool" where
  "is_dir fs p = (p = [] \<or> node_at fs p = Some Dir)"

text \<open>The folders above a path, outermost first: its prefixes that end before a separator.\<close>

definition ancestors :: "path \<Rightarrow> path list" where
  "ancestors p =
     [take i p. i \<leftarrow> [1..<length p], p ! i = CHR ''/'' \<and> p ! (i - 1) \<noteq> CHR ''/'']"

definition is_file :: "filesystem \<Rightarrow> path \<Rightarrow> bool" where
  "is_file fs p = (case node_at fs p of None \<Rightarrow> False | Some Dir \<Rightarrow> False | Some _ \<Rightarrow> True)"

text \<open>
  \<^verbatim>\<open>os.makedirs(name)\<close> creates the folders above \<^verbatim>\<open>name\<close> that are missing, then \<^verbatim>\<open>name\<close>.
  It raises when a file stands where a folder is needed, and when \<^verbatim>\<open>name\<close> is there
  already.
\<close>

definition os_makedirs :: "path \<Rightarrow> filesystem \<Rightarrow> error + filesystem" where
  "os_makedirs name fs =
     (let leaf = (if rstrip_sep name \<noteq> [] then rstrip_sep name else name)
      in if list_ex (is_file fs) (ancestors leaf) then Inl NotADirectoryError
         else if node_at fs leaf \<noteq> None then Inl FileExistsError
         else Inr (\<lambda>k. if List.member (ancestors leaf @ [leaf]) k \<and> node_at fs k = None
                        then Some Dir else fs k))"

text \<open>
  \<^verbatim>\<open>os.rename(src, dst)\<close>, which the module calls for a \<^verbatim>\<open>dst\<close> that does not exist. The
  source has to be there and so has the folder of the target; a folder moves with what
  is below it, and cannot move below itself.
\<close>

definition os_rename :: "path \<Rightarrow> path \<Rightarrow> filesystem \<Rightarrow> error + filesystem" where
  "os_rename src dst fs =
     (case fs src of None \<Rightarrow> Inl FileNotFoundError
      | Some f \<Rightarrow>
          if node_at fs (os_path_dirname dst) = None \<and> os_path_dirname dst \<noteq> []
          then Inl FileNotFoundError
          else if \<not> is_dir fs (os_path_dirname dst) then Inl NotADirectoryError
          else if f = Dir \<and> startswith dst (src @ ''/'') then Inl OSError
          else Inr (\<lambda>k. if k = dst then Some f
                         else if f = Dir \<and> startswith k (dst @ ''/'')
                         then fs (src @ drop (length dst) k)
                         else if k = src \<or> (f = Dir \<and> startswith k (src @ ''/'')) then None
                         else fs k))"

section \<open>\<^verbatim>\<open>GetData\<close>\<close>

record GetData =
  gd_id_form :: string
  gd_prefix :: "string option"
  gd_save_directory :: path
  survey_by_id :: "item option"

text \<open>\<^verbatim>\<open>__init__\<close>: \<^verbatim>\<open>content.get\<close> answers \<^verbatim>\<open>None\<close> for an identifier the portal does not know.\<close>

definition GetData_init :: "portal \<Rightarrow> string \<Rightarrow> path \<Rightarrow> string option \<Rightarrow> GetData \<times> message" where
  "GetData_init gis_login form save_directory prefix =
     (\<lparr>gd_id_form = form, gd_prefix = prefix, gd_save_directory = save_directory,
       survey_by_id = content_get gis_login form\<rparr>, FormToDownload)"

text \<open>
  \<^verbatim>\<open>DataFrame.to_csv\<close> refuses a file whose folder is not there (\<open>OSError\<close>), and \<^verbatim>\<open>open\<close>
  refuses to write over a folder; otherwise the file is created or replaced.
\<close>

definition to_csv :: "dataframe \<Rightarrow> path \<Rightarrow> bool \<Rightarrow> string \<Rightarrow> string \<Rightarrow> filesystem
    \<Rightarrow> error + filesystem" where
  "to_csv df file index decimal sep fs =
     (if \<not> is_dir fs (os_path_dirname file) then Inl OSError
      else if node_at fs file = Some Dir then Inl IsADirectoryError
      else Inr (fs(file \<mapsto> Csv \<lparr>csv_data = df, csv_index = index, csv_decimal = decimal,
                                  csv_sep = sep\<rparr>)))"

text \<open>
  The two branches of \<^verbatim>\<open>if save==True\<close>, shared by \<^verbatim>\<open>get_main_layer\<close> and \<^verbatim>\<open>get_table\<close>
  (the source repeats them). \<^verbatim>\<open>file_name\<close> defaults to \<^verbatim>\<open>None\<close>, and \<^verbatim>\<open>None + '.csv'\<close>
  raises.
\<close>

definition save_df :: "GetData \<Rightarrow> dataframe \<Rightarrow> bool \<Rightarrow> string option \<Rightarrow> filesystem
    \<Rightarrow> error + dataframe \<times> filesystem" where
  "save_df self df save file_name fs =
     (if save then
        (if gd_prefix self = None then
           (case file_name of None \<Rightarrow> Inl TypeError
            | Some fn \<Rightarrow>
                let file = os_path_join (gd_save_directory self) (fn @ ''.csv'')
                in (case to_csv df file False '','' '';'' fs of Inl e \<Rightarrow> Inl e
                    | Inr fs' \<Rightarrow> Inr (df, fs')))
         else
           (case file_name of None \<Rightarrow> Inl TypeError
            | Some fn \<Rightarrow>
                let file = os_path_join (gd_save_directory self) (the (gd_prefix self) @ fn @ ''.csv'')
                in (case to_csv df file False '','' '';'' fs of Inl e \<Rightarrow> Inl e
                    | Inr fs' \<Rightarrow> Inr (df, fs'))))
      else Inr (df, fs))"

definition get_main_layer :: "GetData \<Rightarrow> int \<Rightarrow> bool \<Rightarrow> string option \<Rightarrow> filesystem
    \<Rightarrow> error + dataframe \<times> filesystem" where
  "get_main_layer self layer_position save file_name fs =
     (case survey_by_id self of None \<Rightarrow> Inl AttributeError
      | Some survey \<Rightarrow>
          (case py_index (layers survey) layer_position of Inl e \<Rightarrow> Inl e
           | Inr main_layer \<Rightarrow> save_df self (query_df main_layer) save file_name fs))"

definition get_table :: "GetData \<Rightarrow> int \<Rightarrow> bool \<Rightarrow> string option \<Rightarrow> filesystem
    \<Rightarrow> error + dataframe \<times> filesystem" where
  "get_table self table_position save file_name fs =
     (case survey_by_id self of None \<Rightarrow> Inl AttributeError
      | Some survey \<Rightarrow>
          (case py_index (tables survey) table_position of Inl e \<Rightarrow> Inl e
           | Inr rel_table \<Rightarrow> save_df self (query_df rel_table) save file_name fs))"

section \<open>\<^verbatim>\<open>UploadToPortal\<close>\<close>

text \<open>
  The result names the portal item that was updated and the file it was updated from,
  with the message printed.
\<close>

definition upload_to_portal :: "portal \<Rightarrow> path \<Rightarrow> string \<Rightarrow> string
    \<Rightarrow> error + (string \<times> path \<times> message)" where
  "upload_to_portal gis_login upload_directory file_name file_format =
     (case py_index (content_search gis_login file_name file_format) 0 of Inl e \<Rightarrow> Inl e
      | Inr data_portal \<Rightarrow>
          let file = os_path_join upload_directory (file_name @ ''.csv'')
          in if update data_portal file
             then Inr (item_id data_portal, file, UpdatedOk file_name)
             else Inr (item_id data_portal, file, UpdateFailed file_name))"

section \<open>\<^verbatim>\<open>GetPhotos\<close>\<close>

record GetPhotos =
  gp_id_form :: string
  gp_save_directory :: path
  gp_folder_name :: "string option"

text \<open>
  \<^verbatim>\<open>df_log_previous['objectid'].max()\<close>: the greatest value, and \<^verbatim>\<open>nan\<close> (here \<open>None\<close>)
  for a column without rows.
\<close>

definition series_max :: "int list \<Rightarrow> int option" where
  "series_max xs = (case xs of [] \<Rightarrow> None | x # ys \<Rightarrow> Some (fold max ys x))"

definition str_max_oid :: "int option \<Rightarrow> string" where
  "str_max_oid m = (case m of None \<Rightarrow> ''nan'' | Some i \<Rightarrow> str_int i)"

definition photo_query :: "int option \<Rightarrow> query_req" where
  "photo_query max_oid =
     \<lparr>out_fields = ''created_date'',
      where_clause = ''objectid > '' @ str_max_oid max_oid,
      return_geometry = False,
      order_by_fields = ''objectid ASC''\<rparr>"

text \<open>One pass of the loop over \<^verbatim>\<open>range(len(object_oid_attachments))\<close>.\<close>

definition download_attachment :: "layer \<Rightarrow> nat \<Rightarrow> int \<Rightarrow> path \<Rightarrow> attachment \<Rightarrow> state
    \<Rightarrow> (error \<times> state) + state" where
  "download_attachment fs indice_fs object_oid final_folder a st =
     (let attachment_id = att_id a;
          (object_attachment_path, files') =
             download fs object_oid attachment_id final_folder (files st);
          st1 = st\<lparr>files := files',
                  downloads := downloads st @ [(indice_fs, object_oid, attachment_id, final_folder)]\<rparr>
      in case py_index object_attachment_path 0 of Inl e \<Rightarrow> Inl (e, st1)
         | Inr downloaded \<Rightarrow>
             let final_filename =
                   str_replace downloaded ''.jpg'' (''-oid_'' @ str_int object_oid @ ''.jpg'')
             in if \<not> os_path_exists (files st1) final_filename
                then (case os_rename downloaded final_filename (files st1) of
                        Inl e \<Rightarrow> Inl (e, st1)
                      | Inr files2 \<Rightarrow> Inr (st1\<lparr>files := files2\<rparr>))
                else Inr (print (FileAlreadyExists object_oid final_filename) st1))"

fun attachments_loop :: "layer \<Rightarrow> nat \<Rightarrow> int \<Rightarrow> path \<Rightarrow> attachment list \<Rightarrow> state
    \<Rightarrow> (error \<times> state) + state" where
  "attachments_loop fs indice_fs object_oid final_folder [] st = Inr st"
| "attachments_loop fs indice_fs object_oid final_folder (a # rest) st =
     (case download_attachment fs indice_fs object_oid final_folder a st of
        Inl e \<Rightarrow> Inl e
      | Inr st' \<Rightarrow> attachments_loop fs indice_fs object_oid final_folder rest st')"

text \<open>
  \<^verbatim>\<open>os.path.join(self.save_directory, self.folder_name, folder_date)\<close>; \<^verbatim>\<open>folder_name\<close>
  defaults to \<^verbatim>\<open>None\<close>, which \<^verbatim>\<open>os.path.join\<close> refuses.
\<close>

definition final_folder_of :: "GetPhotos \<Rightarrow> string \<Rightarrow> error + path" where
  "final_folder_of self folder_date =
     (case gp_folder_name self of None \<Rightarrow> Inl TypeError
      | Some folder_name \<Rightarrow>
          Inr (os_path_join (os_path_join (gp_save_directory self) folder_name) folder_date))"

definition py_getitem :: "('k \<rightharpoonup> 'v) \<Rightarrow> 'k \<Rightarrow> error + 'v" where
  "py_getitem d k = (case d k of None \<Rightarrow> Inl KeyError | Some v \<Rightarrow> Inr v)"

text \<open>The body of the loop over \<^verbatim>\<open>feature_object_ids.features\<close>.\<close>

definition process_feature :: "GetPhotos \<Rightarrow> layer \<Rightarrow> nat \<Rightarrow> nat \<Rightarrow> nat \<Rightarrow> feature \<Rightarrow> state
    \<Rightarrow> (error \<times> state) + state" where
  "process_feature self fs indice_fs n_features indice feature st =
     (let st1 = print (DownloadingPhoto (indice + 1) n_features) st
      in case py_getitem feature ''created_date'' of Inl e \<Rightarrow> Inl (e, st1)
         | Inr created \<Rightarrow>
         (case utcfromtimestamp created of Inl e \<Rightarrow> Inl (e, st1)
          | Inr dt \<Rightarrow>
          (case final_folder_of self (strftime dt ''%y-%m-%d'') of Inl e \<Rightarrow> Inl (e, st1)
           | Inr final_folder \<Rightarrow>
             (case (if \<not> os_path_exists (files st1) final_folder
                    then (case os_makedirs final_folder (files st1) of Inl e \<Rightarrow> Inl e
                          | Inr files' \<Rightarrow> Inr (st1\<lparr>files := files'\<rparr>))
                    else Inr st1) of Inl e \<Rightarrow> Inl (e, st1)
              | Inr st2 \<Rightarrow>
                case py_getitem feature ''objectid'' of Inl e \<Rightarrow> Inl (e, st2)
                | Inr object_oid \<Rightarrow>
                    let st3 = st2\<lparr>new_objects_control := new_objects_control st2 @
                                 [\<lparr>objectid = object_oid, created_date = created,
                                   id_form = gp_id_form self, local = final_folder\<rparr>]\<rparr>;
                        object_oid_attachments = get_list fs object_oid
                    in if length object_oid_attachments > 0
                       then attachments_loop fs indice_fs object_oid final_folder
                              object_oid_attachments st3
                       else Inr st3))))"

fun features_loop :: "GetPhotos \<Rightarrow> layer \<Rightarrow> nat \<Rightarrow> nat \<Rightarrow> nat \<Rightarrow> feature list \<Rightarrow> state
    \<Rightarrow> (error \<times> state) + state" where
  "features_loop self fs indice_fs n_features indice [] st = Inr st"
| "features_loop self fs indice_fs n_features indice (feature # rest) st =
     (case process_feature self fs indice_fs n_features indice feature st of
        Inl e \<Rightarrow> Inl e
      | Inr st' \<Rightarrow> features_loop self fs indice_fs n_features (Suc indice) rest st')"

text \<open>The body of the loop over \<^verbatim>\<open>enumerate(rel_fs)\<close>.\<close>

definition process_layer :: "GetPhotos \<Rightarrow> int option \<Rightarrow> nat \<Rightarrow> layer \<Rightarrow> state
    \<Rightarrow> (error \<times> state) + state" where
  "process_layer self max_oid indice_fs fs st =
     (if hasAttachments fs then
        (let feature_object_ids = query fs (photo_query max_oid);
             st1 = st\<lparr>requests := requests st @ [(indice_fs, photo_query max_oid)]\<rparr>
         in if length feature_object_ids = 0 then Inr (print NoNewPhotos st1)
            else features_loop self fs indice_fs (length feature_object_ids) 0
                   feature_object_ids st1)
      else Inr st)"

fun layers_loop :: "GetPhotos \<Rightarrow> int option \<Rightarrow> nat \<Rightarrow> layer list \<Rightarrow> state
    \<Rightarrow> (error \<times> state) + state" where
  "layers_loop self max_oid indice_fs [] st = Inr st"
| "layers_loop self max_oid indice_fs (fs # rest) st =
     (case process_layer self max_oid indice_fs fs st of
        Inl e \<Rightarrow> Inl e
      | Inr st' \<Rightarrow> layers_loop self max_oid (Suc indice_fs) rest st')"

text \<open>
  \<^verbatim>\<open>pd.to_datetime(df_log_new['created_date'], unit='ms')\<close> followed by
  \<^verbatim>\<open>.dt.strftime('%d/%m/%Y %H:%M:%S')\<close>, over the whole column.
\<close>

definition format_row :: "(int, string) log_row \<Rightarrow> error + log_entry" where
  "format_row r =
     (case to_datetime (created_date r) of Inl e \<Rightarrow> Inl e
      | Inr dt \<Rightarrow>
          Inr \<lparr>objectid = objectid r, created_date = Str (strftime dt ''%d/%m/%Y %H:%M:%S''),
               id_form = Str (id_form r), local = Str (local r)\<rparr>)"

fun format_rows :: "(int, string) log_row list \<Rightarrow> error + log_entry list" where
  "format_rows [] = Inr []"
| "format_rows (r # rs) =
     (case format_row r of Inl e \<Rightarrow> Inl e
      | Inr r' \<Rightarrow> (case format_rows rs of Inl e \<Rightarrow> Inl e | Inr rs' \<Rightarrow> Inr (r' # rs')))"

text \<open>
  The nearest double of a whole number, which is what a cast of an \<^verbatim>\<open>int64\<close> column to
  \<^verbatim>\<open>float64\<close> gives: 53 significant bits are kept, and a number half way between two
  doubles goes to the one whose last kept bit is 0. Up to \<open>2 ^ 53\<close> in magnitude nothing is
  lost.
\<close>

fun bit_length :: "nat \<Rightarrow> nat" where
  "bit_length n = (if n = 0 then 0 else Suc (bit_length (n div 2)))"

declare bit_length.simps [simp del]

definition float64 :: "int \<Rightarrow> int" where
  "float64 v =
     (let a = nat \<bar>v\<bar>;
          e = bit_length a - 53;
          q = a div 2 ^ e;
          r = a mod 2 ^ e;
          q' = (if 2 * r > 2 ^ e \<or> (2 * r = 2 ^ e \<and> odd q) then q + 1 else q)
      in sgn v * int (q' * 2 ^ e))"

text \<open>
  \<^verbatim>\<open>pd.read_json\<close> looks at each column that holds strings and makes numbers of it when
  every cell of the column reads as a number: a column of strings of decimal digits comes
  back as the numbers they spell, through a double. The columns of the log that hold
  strings are \<open>created_date\<close>, \<open>id_form\<close> and \<open>local\<close>; \<open>objectid\<close> holds numbers already.
\<close>

definition digit_only :: "string \<Rightarrow> bool" where
  "digit_only s = (s \<noteq> [] \<and> list_all is_digit s)"

definition nat_of_digits :: "string \<Rightarrow> nat" where
  "nat_of_digits s = foldl (\<lambda>n c. 10 * n + (of_char c - 48)) 0 s"

definition is_Str :: "cell \<Rightarrow> bool" where
  "is_Str c = (case c of Str s \<Rightarrow> True | Num n \<Rightarrow> False)"

definition numeric_cell :: "cell \<Rightarrow> bool" where
  "numeric_cell c = (case c of Str s \<Rightarrow> digit_only s | Num n \<Rightarrow> True)"

definition number_of :: "cell \<Rightarrow> int" where
  "number_of c = (case c of Str s \<Rightarrow> float64 (int (nat_of_digits s)) | Num n \<Rightarrow> float64 n)"

definition retyped :: "cell list \<Rightarrow> bool" where
  "retyped column = (list_ex is_Str column \<and> list_all numeric_cell column)"

definition convert :: "cell list \<Rightarrow> cell \<Rightarrow> cell" where
  "convert column c = (if retyped column then Num (number_of c) else c)"

definition read_json :: "log_entry list \<Rightarrow> log_entry list" where
  "read_json rows =
     map (\<lambda>r. \<lparr>objectid = objectid r,
                 created_date = convert (map created_date rows) (created_date r),
                 id_form = convert (map id_form rows) (id_form r),
                 local = convert (map local rows) (local r)\<rparr>) rows"

text \<open>
  \<^verbatim>\<open>pd.concat([df_log_previous, df_log_new], ignore_index=True)\<close>: the rows of the first
  frame, then those of the second. A frame without rows has an \<open>objectid\<close> column of
  doubles, whether it was built from the empty lists of \<^verbatim>\<open>new_objects_control\<close> or read
  from a log without rows, and then the \<open>objectid\<close> column of the result is one of doubles
  too (this is pandas 1, which the \<^verbatim>\<open>arcgis\<close> package of the module's time asks for).
\<close>

definition as_float64 :: "log_entry \<Rightarrow> log_entry" where
  "as_float64 r = r\<lparr>objectid := float64 (objectid r)\<rparr>"

definition pd_concat :: "log_entry list \<Rightarrow> log_entry list \<Rightarrow> log_entry list" where
  "pd_concat previous new =
     (if previous = [] \<or> new = [] then map as_float64 (previous @ new) else previous @ new)"

text \<open>
  \<^verbatim>\<open>df.to_json(log_file)\<close> replaces the whole file, and refuses a file whose folder is not
  there.
\<close>

definition to_json :: "log_entry list \<Rightarrow> path \<Rightarrow> state \<Rightarrow> error + state" where
  "to_json df file st =
     (if \<not> is_dir (files st) (os_path_dirname file) then Inl OSError
      else Inr (st\<lparr>log_file := Some df\<rparr>))"

text \<open>
  \<^verbatim>\<open>get_photos\<close>. The log is read once, at the start; \<^verbatim>\<open>os.path.exists(log_file)\<close> is
  asked again before the final write, and \<^verbatim>\<open>df_log_previous\<close> is bound only when the
  first test succeeded.
\<close>

definition get_photos :: "GetPhotos \<Rightarrow> portal \<Rightarrow> state \<Rightarrow> (error \<times> state) + state" where
  "get_photos self gis_login st =
     (let log_path = os_path_join (gp_save_directory self) ''log_photos.json'';
          (df_log_previous, max_oid, st1) =
            (case log_file st of
               Some rows \<Rightarrow>
                 (Some (read_json rows), series_max (map objectid (read_json rows)), st)
             | None \<Rightarrow> (None, Some 0, print LogNotFound st))
      in case content_get gis_login (gp_id_form self) of
           None \<Rightarrow> Inl (AttributeError, st1)
         | Some survey \<Rightarrow>
             let rel_fs = layers survey @ tables survey;
                 st2 = (print FormToDownloadPhotos st1)\<lparr>new_objects_control := []\<rparr>
             in case layers_loop self max_oid 0 rel_fs st2 of Inl e \<Rightarrow> Inl e
                | Inr st3 \<Rightarrow>
                  (case format_rows (new_objects_control st3) of Inl e \<Rightarrow> Inl (e, st3)
                   | Inr df_log_new \<Rightarrow>
                     (case (if log_file st3 \<noteq> None
                            then (case df_log_previous of None \<Rightarrow> Inl UnboundLocalError
                                  | Some previous \<Rightarrow> Inr (pd_concat previous df_log_new))
                            else Inr df_log_new) of
                        Inl e \<Rightarrow> Inl (e, st3)
                      | Inr df \<Rightarrow>
                          (case to_json df log_path st3 of Inl e \<Rightarrow> Inl (e, st3)
                           | Inr st4 \<Rightarrow> Inr (print AllPhotosDownloaded st4)))))"

section \<open>Notions used to state the properties\<close>

text \<open>The state a run ends in, whether it returned or raised, and whether it returned.\<close>

definition final_state :: "(error \<times> state) + state \<Rightarrow> state" where
  "final_state r = (case r of Inl (e, s) \<Rightarrow> s | Inr s \<Rightarrow> s)"

definition raised :: "(error \<times> state) + state \<Rightarrow> error option" where
  "raised r = (case r of Inl (e, s) \<Rightarrow> Some e | Inr s \<Rightarrow> None)"

definition completed :: "(error \<times> state) + state \<Rightarrow> bool" where
  "completed r = (case r of Inl _ \<Rightarrow> False | Inr _ \<Rightarrow> True)"

text \<open>The positions, counted from \<open>k\<close>, of the layers and tables that have attachments.\<close>

fun enabled_positions :: "nat \<Rightarrow> layer list \<Rightarrow> nat list" where
  "enabled_positions k [] = []"
| "enabled_positions k (fs # rest) =
     (if hasAttachments fs then k # enabled_positions (Suc k) rest
      else enabled_positions (Suc k) rest)"

text \<open>The features the portal returns to the queries of a run with the given cursor.\<close>

definition queried_features :: "int option \<Rightarrow> layer list \<Rightarrow> feature list" where
  "queried_features max_oid rel_fs =
     concat (map (\<lambda>fs. query fs (photo_query max_oid)) (filter hasAttachments rel_fs))"

text \<open>The rows of the log before the run.\<close>

definition previous_rows :: "state \<Rightarrow> log_entry list" where
  "previous_rows st = (case log_file st of None \<Rightarrow> [] | Some rows \<Rightarrow> rows)"

text \<open>
  The rows a completed run writes to the log, given the rows it formatted: these alone
  when there was no log, and else the rows read from the log and these, concatenated.
\<close>

definition written_log :: "state \<Rightarrow> log_entry list \<Rightarrow> log_entry list" where
  "written_log st new =
     (case log_file st of None \<Rightarrow> new | Some rows \<Rightarrow> pd_concat (read_json rows) new)"

text \<open>A feature and the row \<^verbatim>\<open>new_objects_control\<close> receives for it.\<close>

definition row_of_feature :: "GetPhotos \<Rightarrow> feature \<Rightarrow> (int, string) log_row \<Rightarrow> bool" where
  "row_of_feature self feature r =
     (feature ''objectid'' = Some (objectid r) \<and>
      feature ''created_date'' = Some (created_date r) \<and>
      id_form r = gp_id_form self \<and>
      final_folder_of self (strftime (utc_of_ms (created_date r)) ''%y-%m-%d'') = Inr (local r))"

text \<open>A pending row and the row written to the log for it.\<close>

definition formatted_row :: "(int, string) log_row \<Rightarrow> log_entry \<Rightarrow> bool" where
  "formatted_row r r' =
     (objectid r' = objectid r \<and>
      created_date r' = Str (strftime (utc_of_ms (created_date r)) ''%d/%m/%Y %H:%M:%S'') \<and>
      id_form r' = Str (id_form r) \<and> local r' = Str (local r))"

text \<open>\<^verbatim>\<open>old in s\<close>: the string \<open>old\<close> occurs in \<open>s\<close>.\<close>

fun contains :: "string \<Rightarrow> string \<Rightarrow> bool" where
  "contains [] old = (old = [])"
| "contains (c # cs) old = (startswith (c # cs) old \<or> contains cs old)"

text \<open>
  A string has the shape of a pattern when it has a decimal digit wherever the pattern
  has the letter \<open>D\<close>, and the pattern's character everywhere else.
\<close>

fun has_shape :: "string \<Rightarrow> string \<Rightarrow> bool" where
  "has_shape [] [] = True"
| "has_shape (c # cs) (p # ps) =
     ((if p = CHR ''D'' then is_digit c else c = p) \<and> has_shape cs ps)"
| "has_shape _ _ = False"

text \<open>The cursor of a run: what \<^verbatim>\<open>max_oid\<close> is bound to after the log was looked for.\<close>

definition max_oid_of :: "state \<Rightarrow> int option" where
  "max_oid_of st =
     (case log_file st of None \<Rightarrow> Some 0 | Some rows \<Rightarrow> series_max (map objectid rows))"

section \<open>A small portal, to run the functions on\<close>

definition ex_f5 :: feature where
  "ex_f5 = [''objectid'' \<mapsto> 5, ''created_date'' \<mapsto> 1686000000000]"

definition ex_f7 :: feature where
  "ex_f7 = [''objectid'' \<mapsto> 7, ''created_date'' \<mapsto> 1686090000000]"

text \<open>A download that stores the attachment under its name in the folder asked for.\<close>

definition ex_download :: "(int \<Rightarrow> string) \<Rightarrow> int \<Rightarrow> int \<Rightarrow> path \<Rightarrow> filesystem
    \<Rightarrow> path list \<times> filesystem" where
  "ex_download names oid aid save_path fs =
     (let p = os_path_join save_path (names aid) in ([p], fs(p \<mapsto> File ''photo'')))"

text \<open>
  A layer with the records 5 and 7: record 5 has no attachment, record 7 has a
  \<^verbatim>\<open>.jpg\<close> and a \<^verbatim>\<open>.png\<close>.
\<close>

definition ex_layer :: layer where
  "ex_layer =
     \<lparr>hasAttachments = True,
      query = (\<lambda>req. if where_clause req = ''objectid > 5'' then [ex_f7]
                      else if where_clause req = ''objectid > 0'' then [ex_f5, ex_f7]
                      else []),
      query_df = [[''objectid'', ''created_date''], [''5'', ''1686000000000''],
                  [''7'', ''1686090000000'']],
      get_list = (\<lambda>oid. if oid = 7 then [\<lparr>att_id = 1, att_name = ''p.jpg''\<rparr>,
                                           \<lparr>att_id = 2, att_name = ''q.png''\<rparr>]
                         else []),
      download = ex_download (\<lambda>aid. if aid = 1 then ''p.jpg'' else ''q.png'')\<rparr>"

definition ex_table :: layer where
  "ex_table =
     \<lparr>hasAttachments = False,
      query = (\<lambda>req. [ex_f5]),
      query_df = [[''objectid''], [''5'']],
      get_list = (\<lambda>oid. []),
      download = ex_download (\<lambda>aid. ''x.jpg'')\<rparr>"

definition ex_survey :: item where
  "ex_survey = \<lparr>layers = [ex_layer], tables = [ex_table]\<rparr>"

definition ex_content_item :: content_item where
  "ex_content_item = \<lparr>item_id = ''item1'', update = (\<lambda>file. True)\<rparr>"

definition ex_portal :: portal where
  "ex_portal =
     \<lparr>content_get = (\<lambda>i. if i = ''form1'' then Some ex_survey else None),
      content_search = (\<lambda>q t. if q = ''report'' \<and> t = ''CSV'' then [ex_content_item] else [])\<rparr>"

definition ex_photos :: GetPhotos where
  "ex_photos =
     \<lparr>gp_id_form = ''form1'', gp_save_directory = ''./photos/'', gp_folder_name = Some ''f''\<rparr>"

definition ex_data :: GetData where
  "ex_data = fst (GetData_init ex_portal ''form1'' ''out'' (Some ''prj_''))"

definition ex_row5 :: log_entry where
  "ex_row5 = \<lparr>objectid = 5, created_date = Str ''05/06/2023 21:20:00'', id_form = Str ''form1'',
              local = Str ''./photos/f/23-06-05''\<rparr>"

definition ex_row7 :: log_entry where
  "ex_row7 = \<lparr>objectid = 7, created_date = Str ''06/06/2023 22:20:00'', id_form = Str ''form1'',
              local = Str ''./photos/f/23-06-06''\<rparr>"

definition ex_state0 :: state where
  "ex_state0 = \<lparr>files = Map.empty, log_file = None, stdout = [], requests = [],
                downloads = [], new_objects_control = []\<rparr>"

text \<open>A state in which the renamed photo of record 7 is there already.\<close>

definition ex_state_old :: state where
  "ex_state_old =
     ex_state0\<lparr>files := [''./photos/f/23-06-06/p-oid_7.jpg'' \<mapsto> File ''old'']\<rparr>"

text \<open>The object as \<^verbatim>\<open>GetPhotos('form1')\<close> builds it: \<^verbatim>\<open>folder_name\<close> is \<^verbatim>\<open>None\<close>.\<close>

definition ex_photos_default :: GetPhotos where
  "ex_photos_default = ex_photos\<lparr>gp_folder_name := None\<rparr>"

definition ex_state5 :: state where
  "ex_state5 = ex_state0\<lparr>log_file := Some [ex_row5]\<rparr>"

text \<open>A state in which the folder of record 7 holds a file \<^verbatim>\<open>q.png\<close> already.\<close>

definition ex_state_png :: state where
  "ex_state_png =
     ex_state0\<lparr>files := [''./photos'' \<mapsto> Dir, ''./photos/f'' \<mapsto> Dir,
                         ''./photos/f/23-06-06'' \<mapsto> Dir,
                         ''./photos/f/23-06-06/q.png'' \<mapsto> File ''old'']\<rparr>"

text \<open>
  A log whose one row has the objectid \<open>2 ^ 53 + 1\<close>, which no double holds, in the folder
  \<^verbatim>\<open>./photos\<close>.
\<close>

definition ex_row_big :: log_entry where
  "ex_row_big = \<lparr>objectid = 9007199254740993, created_date = Str ''05/06/2023 21:20:00'',
                 id_form = Str ''form1'', local = Str ''./photos/f/23-06-05''\<rparr>"

definition ex_state_big :: state where
  "ex_state_big = ex_state0\<lparr>files := [''./photos'' \<mapsto> Dir], log_file := Some [ex_row_big]\<rparr>"

text \<open>The same form under an identifier made of digits.\<close>

definition ex_portal_digits :: portal where
  "ex_portal_digits =
     ex_portal\<lparr>content_get := (\<lambda>i. if i = ''2023'' then Some ex_survey else None)\<rparr>"

definition ex_photos_digits :: GetPhotos where
  "ex_photos_digits = ex_photos\<lparr>gp_id_form := ''2023''\<rparr>"

section \<open>Indexing and paths\<close>

lemma py_index_out_of_range:
  "int (length xs) \<le> i \<or> i < - int (length xs) \<Longrightarrow> py_index xs i = Inl IndexError"
  by (auto simp: py_index_def)

lemma py_index_in_range:
  "0 \<le> i \<Longrightarrow> i < int (length xs) \<Longrightarrow> py_index xs i = Inr (xs ! nat i)"
  by (simp add: py_index_def)

lemma py_index_never_NotFound: "py_index xs i \<noteq> Inl NotFoundError"
  by (simp add: py_index_def)

lemma os_path_join_plain:
  "a \<noteq> [] \<Longrightarrow> last a \<noteq> CHR ''/'' \<Longrightarrow> b = [] \<or> hd b \<noteq> CHR ''/'' \<Longrightarrow>
   os_path_join a b = a @ ''/'' @ b"
  by (auto simp: os_path_join_def)

section \<open>\<^verbatim>\<open>GetData\<close>: positions out of range, and saving\<close>

text \<open>
  Claim C6, as the code has it. With a position that is out of range for Python, that
  is at or beyond the length or below minus the length, \<^verbatim>\<open>get_main_layer\<close> and
  \<^verbatim>\<open>get_table\<close> raise \<open>IndexError\<close>: no data is returned, empty or other. (A negative
  position down to minus the length counts from the end.)
\<close>

theorem C6_index_error:
  "survey_by_id self = Some survey \<Longrightarrow>
   ((int (length (layers survey)) \<le> layer_position \<or> layer_position < - int (length (layers survey))
       \<longrightarrow> get_main_layer self layer_position save file_name fs = Inl IndexError) \<and>
    (int (length (tables survey)) \<le> table_position \<or> table_position < - int (length (tables survey))
       \<longrightarrow> get_table self table_position save file_name fs = Inl IndexError))"
  by (simp add: get_main_layer_def get_table_def py_index_out_of_range)

text \<open>The form of the small portal has one layer and one table: positions 5 and 1.\<close>

theorem C6_index_error_witness:
  "survey_by_id ex_data = Some ex_survey \<and>
   int (length (layers ex_survey)) \<le> 5 \<and> int (length (tables ex_survey)) \<le> 1 \<and>
   get_main_layer ex_data 5 True (Some ''main'') Map.empty = Inl IndexError \<and>
   get_table ex_data 1 True (Some ''main'') Map.empty = Inl IndexError"
proof -
  have h: "survey_by_id ex_data = Some ex_survey"
    by (simp add: ex_data_def GetData_init_def ex_portal_def)
  have l: "int (length (layers ex_survey)) \<le> 5" "int (length (tables ex_survey)) \<le> 1"
    by (simp_all add: ex_survey_def)
  from C6_index_error [OF h, where layer_position = 5 and table_position = 1 and save = True
         and file_name = "Some ''main''" and fs = Map.empty] l h
  show ?thesis
    by simp
qed

text \<open>
  Claim C6 as the specification words it fails: the error raised at position 5 is
  \<open>IndexError\<close>, not \<open>NotFoundError\<close>; and position \<open>-1\<close>, which is no position of
  the one layer, returns that layer's data.
\<close>

theorem C6_counterexample:
  "get_main_layer ex_data 5 False None Map.empty = Inl IndexError \<and>
   get_main_layer ex_data 5 False None Map.empty \<noteq> Inl NotFoundError \<and>
   get_table ex_data 5 False None Map.empty = Inl IndexError \<and>
   get_table ex_data 5 False None Map.empty \<noteq> Inl NotFoundError \<and>
   get_main_layer ex_data (- 1) False None Map.empty = Inr (query_df ex_layer, Map.empty)"
  by (simp add: get_main_layer_def get_table_def ex_data_def GetData_init_def ex_portal_def
      ex_survey_def py_index_def save_df_def)

text \<open>
  Claim C9. With \<^verbatim>\<open>save=True\<close> and a file name, \<^verbatim>\<open>get_main_layer\<close> and \<^verbatim>\<open>get_table\<close>
  write the data frame they queried to the file named by the prefix (when there is
  one), the file name and \<^verbatim>\<open>.csv\<close>, joined to the save directory by \<^verbatim>\<open>os.path.join\<close>; the
  file is written with \<^verbatim>\<open>index=False\<close>, \<^verbatim>\<open>decimal=','\<close> and \<^verbatim>\<open>sep=';'\<close>, and the same data
  frame is returned. This is so when the folder of the file is there and the file's name
  is not that of a folder; when the folder is missing \<open>OSError\<close> is raised and nothing is
  written or returned. For a directory that does not end with a separator and a name that
  does not start with one, the path is directory, separator, name.
\<close>

theorem C9_saved_csv:
  assumes "survey_by_id self = Some survey"
    and "file = os_path_join (gd_save_directory self)
                  ((case gd_prefix self of None \<Rightarrow> [] | Some prefix \<Rightarrow> prefix) @ file_name @ ''.csv'')"
    and "written = (\<lambda>df. Csv \<lparr>csv_data = df, csv_index = False, csv_decimal = '','', csv_sep = '';''\<rparr>)"
  shows "(is_dir fs (os_path_dirname file) \<and> node_at fs file \<noteq> Some Dir \<longrightarrow>
          (\<forall>main_layer. py_index (layers survey) layer_position = Inr main_layer \<longrightarrow>
             get_main_layer self layer_position True (Some file_name) fs =
               Inr (query_df main_layer, fs(file \<mapsto> written (query_df main_layer)))) \<and>
          (\<forall>rel_table. py_index (tables survey) table_position = Inr rel_table \<longrightarrow>
             get_table self table_position True (Some file_name) fs =
               Inr (query_df rel_table, fs(file \<mapsto> written (query_df rel_table))))) \<and>
         (\<not> is_dir fs (os_path_dirname file) \<longrightarrow>
          (\<forall>main_layer. py_index (layers survey) layer_position = Inr main_layer \<longrightarrow>
             get_main_layer self layer_position True (Some file_name) fs = Inl OSError) \<and>
          (\<forall>rel_table. py_index (tables survey) table_position = Inr rel_table \<longrightarrow>
             get_table self table_position True (Some file_name) fs = Inl OSError)) \<and>
         (gd_save_directory self \<noteq> [] \<and> last (gd_save_directory self) \<noteq> CHR ''/'' \<and>
          hd ((case gd_prefix self of None \<Rightarrow> [] | Some prefix \<Rightarrow> prefix) @ file_name @ ''.csv'') \<noteq> CHR ''/''
          \<longrightarrow> file = gd_save_directory self @ ''/'' @
                (case gd_prefix self of None \<Rightarrow> [] | Some prefix \<Rightarrow> prefix) @ file_name @ ''.csv'')"
proof (cases "gd_prefix self")
  case None
  with assms show ?thesis
    by (simp add: get_main_layer_def get_table_def save_df_def to_csv_def Let_def
        os_path_join_plain)
next
  case (Some prefix)
  with assms show ?thesis
    by (simp add: get_main_layer_def get_table_def save_df_def to_csv_def Let_def
        os_path_join_plain)
qed

text \<open>
  Saving the layer and the table of the small portal, with the prefix \<^verbatim>\<open>prj_\<close>: into the
  folder \<^verbatim>\<open>out\<close> when it is there, and without it.
\<close>

theorem C9_saved_csv_witness:
  "is_dir [''out'' \<mapsto> Dir] (os_path_dirname ''out/prj_main.csv'') \<and>
   get_main_layer ex_data 0 True (Some ''main'') [''out'' \<mapsto> Dir] =
     Inr (query_df ex_layer,
          [''out'' \<mapsto> Dir,
           ''out/prj_main.csv'' \<mapsto> Csv \<lparr>csv_data = query_df ex_layer, csv_index = False,
                                         csv_decimal = '','', csv_sep = '';''\<rparr>]) \<and>
   get_table ex_data 0 True (Some ''rel'') [''out'' \<mapsto> Dir] =
     Inr (query_df ex_table,
          [''out'' \<mapsto> Dir,
           ''out/prj_rel.csv'' \<mapsto> Csv \<lparr>csv_data = query_df ex_table, csv_index = False,
                                        csv_decimal = '','', csv_sep = '';''\<rparr>]) \<and>
   \<not> is_dir Map.empty (os_path_dirname ''out/prj_main.csv'') \<and>
   get_main_layer ex_data 0 True (Some ''main'') Map.empty = Inl OSError \<and>
   get_table ex_data 0 True (Some ''rel'') Map.empty = Inl OSError"
proof -
  have h: "survey_by_id ex_data = Some ex_survey"
    by (simp add: ex_data_def GetData_init_def ex_portal_def)
  have d: "gd_save_directory ex_data = ''out''" "gd_prefix ex_data = Some ''prj_''"
    by (simp_all add: ex_data_def GetData_init_def)
  have i: "py_index (layers ex_survey) 0 = Inr ex_layer" "py_index (tables ex_survey) 0 = Inr ex_table"
    by (simp_all add: py_index_def ex_survey_def)
  have n: "os_path_dirname ''out/prj_main.csv'' = ''out''"
    "os_path_dirname ''out/prj_rel.csv'' = ''out''"
    by (simp_all add: os_path_dirname_def rstrip_sep_def)
  from C9_saved_csv [OF h refl refl, where layer_position = 0 and table_position = 0
         and file_name = "''main''" and fs = "[''out'' \<mapsto> Dir]"]
       C9_saved_csv [OF h refl refl, where layer_position = 0 and table_position = 0
         and file_name = "''rel''" and fs = "[''out'' \<mapsto> Dir]"]
       C9_saved_csv [OF h refl refl, where layer_position = 0 and table_position = 0
         and file_name = "''main''" and fs = Map.empty]
       C9_saved_csv [OF h refl refl, where layer_position = 0 and table_position = 0
         and file_name = "''rel''" and fs = Map.empty] i d n
  show ?thesis
    by (simp add: os_path_join_def is_dir_def node_at_def)
qed

section \<open>\<^verbatim>\<open>UploadToPortal\<close>: the first match\<close>

text \<open>
  Claim C7, as the code has it. When the search finds nothing, \<^verbatim>\<open>upload_to_portal\<close>
  raises \<open>IndexError\<close>; when it finds items, the first one is updated, from the file
  named by the file name and \<^verbatim>\<open>.csv\<close> in the upload directory.
\<close>

theorem C7_first_match_or_index_error:
  "(content_search gis_login file_name file_format = [] \<longrightarrow>
      upload_to_portal gis_login upload_directory file_name file_format = Inl IndexError) \<and>
   (\<forall>first others. content_search gis_login file_name file_format = first # others \<longrightarrow>
      upload_to_portal gis_login upload_directory file_name file_format =
        Inr (item_id first, os_path_join upload_directory (file_name @ ''.csv''),
             if update first (os_path_join upload_directory (file_name @ ''.csv''))
             then UpdatedOk file_name else UpdateFailed file_name))"
  by (simp add: upload_to_portal_def py_index_def Let_def)

text \<open>The small portal holds one CSV item, found by the name \<^verbatim>\<open>report\<close>.\<close>

theorem C7_first_match_or_index_error_witness:
  "content_search ex_portal ''report'' ''CSV'' = [ex_content_item] \<and>
   upload_to_portal ex_portal ''up'' ''report'' ''CSV'' =
     Inr (''item1'', ''up/report.csv'', UpdatedOk ''report'') \<and>
   content_search ex_portal ''missing'' ''CSV'' = [] \<and>
   upload_to_portal ex_portal ''up'' ''missing'' ''CSV'' = Inl IndexError"
proof -
  have a: "content_search ex_portal ''report'' ''CSV'' = [ex_content_item]"
    by (simp add: ex_portal_def)
  have b: "content_search ex_portal ''missing'' ''CSV'' = []"
    by (simp add: ex_portal_def)
  from C7_first_match_or_index_error [of ex_portal "''report''" "''CSV''" "''up''"]
       C7_first_match_or_index_error [of ex_portal "''missing''" "''CSV''" "''up''"] a b
  show ?thesis
    by (simp add: ex_content_item_def os_path_join_def)
qed

text \<open>
  Claim C7 as the specification words it fails: with no match the error raised is
  \<open>IndexError\<close>, not \<open>NotFoundError\<close>.
\<close>

theorem C7_counterexample:
  "content_search ex_portal ''missing'' ''CSV'' = [] \<and>
   upload_to_portal ex_portal ''up'' ''missing'' ''CSV'' = Inl IndexError \<and>
   upload_to_portal ex_portal ''up'' ''missing'' ''CSV'' \<noteq> Inl NotFoundError"
  by (simp add: upload_to_portal_def ex_portal_def py_index_def)

section \<open>What the loops of \<^verbatim>\<open>get_photos\<close> leave unchanged, and what they add\<close>

lemma final_state_simps [simp]:
  "final_state (Inl (e, s)) = s" "final_state (Inr s) = s"
  by (simp_all add: final_state_def)

lemma download_attachment_frame:
  "log_file (final_state (download_attachment fs i oid folder a st)) = log_file st \<and>
   requests (final_state (download_attachment fs i oid folder a st)) = requests st \<and>
   new_objects_control (final_state (download_attachment fs i oid folder a st)) = new_objects_control st"
  by (auto simp: download_attachment_def print_def Let_def split: prod.splits sum.splits)

lemma attachments_loop_frame:
  "log_file (final_state (attachments_loop fs i oid folder atts st)) = log_file st \<and>
   requests (final_state (attachments_loop fs i oid folder atts st)) = requests st \<and>
   new_objects_control (final_state (attachments_loop fs i oid folder atts st)) = new_objects_control st"
proof (induction atts arbitrary: st)
  case Nil
  show ?case by simp
next
  case (Cons a atts)
  show ?case
  proof (cases "download_attachment fs i oid folder a st")
    case (Inl x)
    with download_attachment_frame [of fs i oid folder a st] show ?thesis
      by (cases x) simp
  next
    case (Inr st1)
    with download_attachment_frame [of fs i oid folder a st] Cons.IH [of st1] show ?thesis
      by simp
  qed
qed

lemma process_feature_frame:
  "log_file (final_state (process_feature self fs i n indice feature st)) = log_file st \<and>
   requests (final_state (process_feature self fs i n indice feature st)) = requests st"
  using attachments_loop_frame
  by (auto simp: process_feature_def print_def Let_def split: sum.splits)

lemma attachments_loop_noc:
  "attachments_loop fs i oid folder atts st = Inr st' \<Longrightarrow> new_objects_control st' = new_objects_control st"
  using attachments_loop_frame [of fs i oid folder atts st] by simp

lemma process_feature_row:
  assumes "process_feature self fs i n indice feature st = Inr st'"
  shows "\<exists>r. new_objects_control st' = new_objects_control st @ [r] \<and> row_of_feature self feature r"
proof -
  from assms obtain created where c: "feature ''created_date'' = Some created"
    by (auto simp: process_feature_def py_getitem_def Let_def split: option.splits)
  from assms c obtain dt where d: "utcfromtimestamp created = Inr dt"
    by (auto simp: process_feature_def py_getitem_def Let_def split: sum.splits)
  then have dt: "dt = utc_of_ms created"
    by (auto simp: utcfromtimestamp_def split: if_splits)
  from assms c d obtain final_folder where
    f: "final_folder_of self (strftime dt ''%y-%m-%d'') = Inr final_folder"
    by (auto simp: process_feature_def py_getitem_def Let_def split: sum.splits)
  from assms c d f obtain object_oid where o: "feature ''objectid'' = Some object_oid"
    by (auto simp: process_feature_def py_getitem_def Let_def
        split: option.splits sum.splits if_splits)
  let ?r ="\<lparr>objectid = object_oid, created_date = created, id_form = gp_id_form self,
             local = final_folder\<rparr>"
  from assms c d f o have "new_objects_control st' = new_objects_control st @ [?r]"
    by (auto simp: process_feature_def py_getitem_def Let_def print_def
        dest!: attachments_loop_noc split: if_splits sum.splits)
  moreover have "row_of_feature self feature ?r"
    using c o f dt by (simp add: row_of_feature_def)
  ultimately show ?thesis by blast
qed

lemma features_loop_frame:
  "log_file (final_state (features_loop self fs i n indice features st)) = log_file st \<and>
   requests (final_state (features_loop self fs i n indice features st)) = requests st"
proof (induction features arbitrary: st indice)
  case Nil
  show ?case by simp
next
  case (Cons feature features)
  show ?case
  proof (cases "process_feature self fs i n indice feature st")
    case (Inl x)
    with process_feature_frame [of self fs i n indice feature st] show ?thesis
      by (cases x) simp
  next
    case (Inr st1)
    with process_feature_frame [of self fs i n indice feature st] Cons.IH [of "Suc indice" st1]
    show ?thesis by simp
  qed
qed

lemma features_loop_rows:
  "features_loop self fs i n indice features st = Inr st' \<Longrightarrow>
   \<exists>rows. new_objects_control st' = new_objects_control st @ rows \<and>
          list_all2 (row_of_feature self) features rows"
proof (induction features arbitrary: st indice)
  case Nil
  then show ?case by simp
next
  case (Cons feature features)
  from Cons.prems obtain st1 where
    1: "process_feature self fs i n indice feature st = Inr st1" and
    2: "features_loop self fs i n (Suc indice) features st1 = Inr st'"
    by (auto split: sum.splits)
  from process_feature_row [OF 1] obtain r where
    r: "new_objects_control st1 = new_objects_control st @ [r]" "row_of_feature self feature r"
    by blast
  from Cons.IH [OF 2] obtain rows where
    rows: "new_objects_control st' = new_objects_control st1 @ rows"
          "list_all2 (row_of_feature self) features rows"
    by blast
  from r rows have "new_objects_control st' = new_objects_control st @ (r # rows)"
    and "list_all2 (row_of_feature self) (feature # features) (r # rows)"
    by simp_all
  then show ?case by blast
qed

lemma process_layer_frame:
  "log_file (final_state (process_layer self max_oid i fs st)) = log_file st \<and>
   requests (final_state (process_layer self max_oid i fs st)) =
     requests st @ (if hasAttachments fs then [(i, photo_query max_oid)] else [])"
  using features_loop_frame
  by (auto simp: process_layer_def print_def Let_def)

lemma process_layer_rows:
  assumes "process_layer self max_oid i fs st = Inr st'"
  shows "\<exists>rows. new_objects_control st' = new_objects_control st @ rows \<and>
          list_all2 (row_of_feature self)
            (if hasAttachments fs then query fs (photo_query max_oid) else []) rows"
proof (cases "hasAttachments fs")
  case False
  with assms show ?thesis by (simp add: process_layer_def)
next
  case True
  show ?thesis
  proof (cases "query fs (photo_query max_oid) = []")
    case True
    with assms \<open>hasAttachments fs\<close> show ?thesis
      by (auto simp: process_layer_def print_def Let_def)
  next
    case False
    with assms \<open>hasAttachments fs\<close> have
      "features_loop self fs i (length (query fs (photo_query max_oid))) 0
         (query fs (photo_query max_oid)) (st\<lparr>requests := requests st @ [(i, photo_query max_oid)]\<rparr>) = Inr st'"
      by (simp add: process_layer_def Let_def)
    from features_loop_rows [OF this] \<open>hasAttachments fs\<close> show ?thesis by simp
  qed
qed

lemma layers_loop_log:
  "log_file (final_state (layers_loop self max_oid k ls st)) = log_file st"
proof (induction ls arbitrary: st k)
  case Nil
  show ?case by simp
next
  case (Cons fs ls)
  show ?case
  proof (cases "process_layer self max_oid k fs st")
    case (Inl x)
    with process_layer_frame [of self max_oid k fs st] show ?thesis
      by (cases x) simp
  next
    case (Inr st1)
    with process_layer_frame [of self max_oid k fs st] Cons.IH [of "Suc k" st1]
    show ?thesis by simp
  qed
qed

lemma layers_loop_requests:
  "\<exists>n. requests (final_state (layers_loop self max_oid k ls st)) =
         requests st @ map (\<lambda>j. (j, photo_query max_oid)) (take n (enabled_positions k ls))"
proof (induction ls arbitrary: st k)
  case Nil
  show ?case by simp
next
  case (Cons fs ls)
  show ?case
  proof (cases "process_layer self max_oid k fs st")
    case (Inl x)
    with process_layer_frame [of self max_oid k fs st]
    have "requests (final_state (layers_loop self max_oid k (fs # ls) st)) =
            requests st @ (if hasAttachments fs then [(k, photo_query max_oid)] else [])"
      by (cases x) simp
    then have "requests (final_state (layers_loop self max_oid k (fs # ls) st)) =
            requests st @ map (\<lambda>j. (j, photo_query max_oid))
              (take (if hasAttachments fs then 1 else 0) (enabled_positions k (fs # ls)))"
      by simp
    then show ?thesis by blast
  next
    case (Inr st1)
    from Cons.IH [of "Suc k" st1] obtain n where
      n: "requests (final_state (layers_loop self max_oid (Suc k) ls st1)) =
            requests st1 @ map (\<lambda>j. (j, photo_query max_oid)) (take n (enabled_positions (Suc k) ls))"
      by blast
    from Inr process_layer_frame [of self max_oid k fs st]
    have s: "requests st1 = requests st @ (if hasAttachments fs then [(k, photo_query max_oid)] else [])"
      by simp
    from Inr n s have "requests (final_state (layers_loop self max_oid k (fs # ls) st)) =
        requests st @ map (\<lambda>j. (j, photo_query max_oid))
          (take (if hasAttachments fs then Suc n else n) (enabled_positions k (fs # ls)))"
      by simp
    then show ?thesis by blast
  qed
qed

lemma layers_loop_requests_completed:
  "layers_loop self max_oid k ls st = Inr st' \<Longrightarrow>
   requests st' = requests st @ map (\<lambda>j. (j, photo_query max_oid)) (enabled_positions k ls)"
proof (induction ls arbitrary: st k)
  case Nil
  then show ?case by simp
next
  case (Cons fs ls)
  from Cons.prems obtain st1 where
    1: "process_layer self max_oid k fs st = Inr st1" and
    2: "layers_loop self max_oid (Suc k) ls st1 = Inr st'"
    by (auto split: sum.splits)
  from 1 process_layer_frame [of self max_oid k fs st]
  have "requests st1 = requests st @ (if hasAttachments fs then [(k, photo_query max_oid)] else [])"
    by simp
  with Cons.IH [OF 2] show ?case by simp
qed

lemma layers_loop_rows:
  "layers_loop self max_oid k ls st = Inr st' \<Longrightarrow>
   \<exists>rows. new_objects_control st' = new_objects_control st @ rows \<and>
          list_all2 (row_of_feature self) (queried_features max_oid ls) rows"
proof (induction ls arbitrary: st k)
  case Nil
  then show ?case by (simp add: queried_features_def)
next
  case (Cons fs ls)
  from Cons.prems obtain st1 where
    1: "process_layer self max_oid k fs st = Inr st1" and
    2: "layers_loop self max_oid (Suc k) ls st1 = Inr st'"
    by (auto split: sum.splits)
  from process_layer_rows [OF 1] obtain rows1 where
    r1: "new_objects_control st1 = new_objects_control st @ rows1"
        "list_all2 (row_of_feature self)
           (if hasAttachments fs then query fs (photo_query max_oid) else []) rows1"
    by blast
  from Cons.IH [OF 2] obtain rows2 where
    r2: "new_objects_control st' = new_objects_control st1 @ rows2"
        "list_all2 (row_of_feature self) (queried_features max_oid ls) rows2"
    by blast
  from r1 r2 have "new_objects_control st' = new_objects_control st @ (rows1 @ rows2)"
    by simp
  moreover from r1(2) r2(2)
  have "list_all2 (row_of_feature self) (queried_features max_oid (fs # ls)) (rows1 @ rows2)"
    by (auto simp: queried_features_def intro: list_all2_appendI)
  ultimately show ?case by blast
qed

lemma enabled_positions_filter:
  "enabled_positions k ls = map (\<lambda>j. k + j) (filter (\<lambda>j. hasAttachments (ls ! j)) [0..<length ls])"
proof (induction ls arbitrary: k)
  case Nil
  show ?case by simp
next
  case (Cons fs ls)
  have "[0..<length (fs # ls)] = 0 # map Suc [0..<length ls]"
    by (simp add: upt_conv_Cons map_Suc_upt del: upt_Suc)
  then show ?case
    by (simp add: Cons.IH filter_map comp_def del: upt_Suc)
qed

lemma format_rows_formatted:
  "format_rows rows = Inr rows' \<Longrightarrow> list_all2 formatted_row rows rows'"
proof (induction rows arbitrary: rows')
  case Nil
  then show ?case by simp
next
  case (Cons r rows)
  then show ?case
    by (auto simp: format_row_def formatted_row_def to_datetime_def
        split: sum.splits if_splits)
qed

lemma download_attachment_stdout:
  "\<exists>ms. stdout (final_state (download_attachment fs i oid folder a st)) = stdout st @ ms"
  by (auto simp: download_attachment_def print_def Let_def split: prod.splits sum.splits)

lemma attachments_loop_stdout:
  "\<exists>ms. stdout (final_state (attachments_loop fs i oid folder atts st)) = stdout st @ ms"
proof (induction atts arbitrary: st)
  case Nil
  show ?case by simp
next
  case (Cons a atts)
  from download_attachment_stdout [of fs i oid folder a st] obtain ms where
    ms: "stdout (final_state (download_attachment fs i oid folder a st)) = stdout st @ ms"
    by blast
  show ?case
  proof (cases "download_attachment fs i oid folder a st")
    case (Inl x)
    with ms show ?thesis by (cases x) simp
  next
    case (Inr st1)
    from Cons.IH [of st1] obtain ms' where
      "stdout (final_state (attachments_loop fs i oid folder atts st1)) = stdout st1 @ ms'"
      by blast
    with Inr ms show ?thesis by simp
  qed
qed

lemma process_feature_stdout:
  "\<exists>ms. stdout (final_state (process_feature self fs i n indice feature st)) = stdout st @ ms"
proof -
  have "\<exists>ms. stdout (final_state (attachments_loop fs i oid folder atts s)) = stdout st @ ms"
    if "\<exists>ms. stdout s = stdout st @ ms" for oid folder atts s
    using that attachments_loop_stdout [of fs i oid folder atts s] by auto
  then show ?thesis
    by (auto simp: process_feature_def print_def Let_def split: sum.splits)
qed

lemma features_loop_stdout:
  "\<exists>ms. stdout (final_state (features_loop self fs i n indice features st)) = stdout st @ ms"
proof (induction features arbitrary: st indice)
  case Nil
  show ?case by simp
next
  case (Cons feature features)
  from process_feature_stdout [of self fs i n indice feature st] obtain ms where
    ms: "stdout (final_state (process_feature self fs i n indice feature st)) = stdout st @ ms"
    by blast
  show ?case
  proof (cases "process_feature self fs i n indice feature st")
    case (Inl x)
    with ms show ?thesis by (cases x) simp
  next
    case (Inr st1)
    from Cons.IH [of "Suc indice" st1] obtain ms' where
      "stdout (final_state (features_loop self fs i n (Suc indice) features st1)) = stdout st1 @ ms'"
      by blast
    with Inr ms show ?thesis by simp
  qed
qed

lemma process_layer_stdout:
  "\<exists>ms. stdout (final_state (process_layer self max_oid i fs st)) = stdout st @ ms"
  using features_loop_stdout [of self fs i "length (query fs (photo_query max_oid))" 0
      "query fs (photo_query max_oid)" "st\<lparr>requests := requests st @ [(i, photo_query max_oid)]\<rparr>"]
  by (auto simp: process_layer_def print_def Let_def)

lemma layers_loop_stdout:
  "\<exists>ms. stdout (final_state (layers_loop self max_oid k ls st)) = stdout st @ ms"
proof (induction ls arbitrary: st k)
  case Nil
  show ?case by simp
next
  case (Cons fs ls)
  from process_layer_stdout [of self max_oid k fs st] obtain ms where
    ms: "stdout (final_state (process_layer self max_oid k fs st)) = stdout st @ ms"
    by blast
  show ?case
  proof (cases "process_layer self max_oid k fs st")
    case (Inl x)
    with ms show ?thesis by (cases x) simp
  next
    case (Inr st1)
    from Cons.IH [of "Suc k" st1] obtain ms' where
      "stdout (final_state (layers_loop self max_oid (Suc k) ls st1)) = stdout st1 @ ms'"
      by blast
    with Inr ms show ?thesis by simp
  qed
qed

lemma layers_loop_log_completed:
  "layers_loop self max_oid k ls st = Inr st' \<Longrightarrow> log_file st' = log_file st"
  using layers_loop_log [of self max_oid k ls st] by simp

lemma read_json_objectid: "map objectid (read_json rows) = map objectid rows"
  by (simp add: read_json_def comp_def)

lemma get_photos_unfold:
  assumes "content_get gis_login (gp_id_form self) = Some survey"
  shows "get_photos self gis_login st =
     (let st2 = (print FormToDownloadPhotos
                   (case log_file st of None \<Rightarrow> print LogNotFound st | Some rows \<Rightarrow> st))
                 \<lparr>new_objects_control := []\<rparr>
      in case layers_loop self (max_oid_of st) 0 (layers survey @ tables survey) st2 of
           Inl e \<Rightarrow> Inl e
         | Inr st3 \<Rightarrow>
             (case format_rows (new_objects_control st3) of Inl e \<Rightarrow> Inl (e, st3)
              | Inr df_log_new \<Rightarrow>
                  (case to_json (written_log st df_log_new)
                          (os_path_join (gp_save_directory self) ''log_photos.json'') st3 of
                     Inl e \<Rightarrow> Inl (e, st3)
                   | Inr st4 \<Rightarrow> Inr (print AllPhotosDownloaded st4))))"
proof (cases "log_file st")
  case None
  then show ?thesis
    using assms
    by (auto simp: get_photos_def max_oid_of_def written_log_def Let_def print_def
        split: sum.splits dest!: layers_loop_log_completed)
next
  case (Some rows)
  then show ?thesis
    using assms
    by (auto simp: get_photos_def max_oid_of_def written_log_def Let_def print_def
        read_json_objectid split: sum.splits dest!: layers_loop_log_completed)
qed

lemma get_photos_no_form:
  "content_get gis_login (gp_id_form self) = None \<Longrightarrow>
   \<exists>st'. get_photos self gis_login st = Inl (AttributeError, st') \<and>
         requests st' = requests st \<and> log_file st' = log_file st"
  by (auto simp: get_photos_def print_def Let_def split: option.splits)

lemma get_photos_completed:
  assumes "get_photos self gis_login st = Inr st'"
  shows "\<exists>survey raw new.
           content_get gis_login (gp_id_form self) = Some survey \<and>
           log_file st' = Some (written_log st new) \<and>
           is_dir (files st')
             (os_path_dirname (os_path_join (gp_save_directory self) ''log_photos.json'')) \<and>
           new_objects_control st' = raw \<and>
           list_all2 (row_of_feature self)
             (queried_features (max_oid_of st) (layers survey @ tables survey)) raw \<and>
           format_rows raw = Inr new \<and>
           requests st' = requests st @
             map (\<lambda>j. (j, photo_query (max_oid_of st)))
               (enabled_positions 0 (layers survey @ tables survey))"
proof -
  from assms get_photos_no_form [of gis_login self st]
  obtain survey where s: "content_get gis_login (gp_id_form self) = Some survey"
    by (cases "content_get gis_login (gp_id_form self)") auto
  let ?st2 = "(print FormToDownloadPhotos
                (case log_file st of None \<Rightarrow> print LogNotFound st | Some rows \<Rightarrow> st))
              \<lparr>new_objects_control := []\<rparr>"
  let ?rel = "layers survey @ tables survey"
  from assms obtain st3 new where
    l: "layers_loop self (max_oid_of st) 0 ?rel ?st2 = Inr st3" and
    f: "format_rows (new_objects_control st3) = Inr new" and
    e: "st' = print AllPhotosDownloaded (st3\<lparr>log_file := Some (written_log st new)\<rparr>)" and
    d: "is_dir (files st3)
          (os_path_dirname (os_path_join (gp_save_directory self) ''log_photos.json''))"
    unfolding get_photos_unfold [OF s] Let_def
    by (auto simp: to_json_def split: sum.splits if_splits)
  from layers_loop_rows [OF l] obtain raw where
    r: "new_objects_control st3 = raw"
       "list_all2 (row_of_feature self) (queried_features (max_oid_of st) ?rel) raw"
    by auto
  have q: "requests ?st2 = requests st"
    by (simp add: print_def split: option.splits)
  from layers_loop_requests_completed [OF l] q
  have "requests st3 = requests st @
          map (\<lambda>j. (j, photo_query (max_oid_of st))) (enabled_positions 0 ?rel)"
    by simp
  with s f e d r show ?thesis
    by (auto simp: print_def)
qed

lemma get_photos_requests:
  assumes "content_get gis_login (gp_id_form self) = Some survey"
  shows "\<exists>n. requests (final_state (get_photos self gis_login st)) =
           requests st @ map (\<lambda>j. (j, photo_query (max_oid_of st)))
             (take n (enabled_positions 0 (layers survey @ tables survey)))"
proof -
  let ?st2 = "(print FormToDownloadPhotos
                (case log_file st of None \<Rightarrow> print LogNotFound st | Some rows \<Rightarrow> st))
              \<lparr>new_objects_control := []\<rparr>"
  let ?rel = "layers survey @ tables survey"
  let ?loop = "layers_loop self (max_oid_of st) 0 ?rel ?st2"
  have q: "requests ?st2 = requests st"
    by (simp add: print_def split: option.splits)
  from layers_loop_requests [of self "max_oid_of st" 0 ?rel ?st2] q obtain n where
    n: "requests (final_state ?loop) = requests st @
          map (\<lambda>j. (j, photo_query (max_oid_of st))) (take n (enabled_positions 0 ?rel))"
    by auto
  have "requests (final_state (get_photos self gis_login st)) = requests (final_state ?loop)"
    unfolding get_photos_unfold [OF assms] Let_def
    by (auto simp: print_def to_json_def split: sum.splits if_splits)
  with n show ?thesis by auto
qed

lemma get_photos_raised_log:
  assumes "get_photos self gis_login st = Inl (e, st')"
  shows "log_file st' = log_file st"
proof (cases "content_get gis_login (gp_id_form self)")
  case None
  from get_photos_no_form [OF this, of st] assms show ?thesis by auto
next
  case (Some survey)
  let ?st2 = "(print FormToDownloadPhotos
                (case log_file st of None \<Rightarrow> print LogNotFound st | Some rows \<Rightarrow> st))
              \<lparr>new_objects_control := []\<rparr>"
  let ?loop = "layers_loop self (max_oid_of st) 0 (layers survey @ tables survey) ?st2"
  have q: "log_file ?st2 = log_file st"
    by (simp add: print_def split: option.splits)
  from assms have "st' = final_state ?loop"
    unfolding get_photos_unfold [OF Some] Let_def
    by (auto simp: to_json_def split: sum.splits if_splits)
  with layers_loop_log [of self "max_oid_of st" 0 "layers survey @ tables survey" ?st2] q
  show ?thesis by simp
qed

lemma get_photos_stdout:
  assumes "content_get gis_login (gp_id_form self) = Some survey"
  shows "\<exists>ms. stdout (final_state (get_photos self gis_login st)) =
           stdout st @ (case log_file st of None \<Rightarrow> [LogNotFound] | Some rows \<Rightarrow> []) @
           FormToDownloadPhotos # ms"
proof -
  let ?st2 = "(print FormToDownloadPhotos
                (case log_file st of None \<Rightarrow> print LogNotFound st | Some rows \<Rightarrow> st))
              \<lparr>new_objects_control := []\<rparr>"
  let ?loop = "layers_loop self (max_oid_of st) 0 (layers survey @ tables survey) ?st2"
  have q: "stdout ?st2 = stdout st @
      (case log_file st of None \<Rightarrow> [LogNotFound] | Some rows \<Rightarrow> []) @ [FormToDownloadPhotos]"
    by (simp add: print_def split: option.splits)
  from layers_loop_stdout [of self "max_oid_of st" 0 "layers survey @ tables survey" ?st2]
  obtain ms where ms: "stdout (final_state ?loop) = stdout ?st2 @ ms"
    by blast
  have "\<exists>ms'. stdout (final_state (get_photos self gis_login st)) = stdout (final_state ?loop) @ ms'"
    unfolding get_photos_unfold [OF assms] Let_def
    by (auto simp: print_def to_json_def split: sum.splits if_splits)
  with ms q show ?thesis by auto
qed

section \<open>Downloads and the greatest objectid\<close>

lemma download_attachment_downloads:
  "download_attachment fs i oid folder a st = Inr st' \<Longrightarrow>
   downloads st' = downloads st @ [(i, oid, att_id a, folder)]"
  by (auto simp: download_attachment_def print_def Let_def split: prod.splits sum.splits if_splits)

lemma attachments_loop_downloads:
  "attachments_loop fs i oid folder atts st = Inr st' \<Longrightarrow>
   downloads st' = downloads st @ map (\<lambda>a. (i, oid, att_id a, folder)) atts"
proof (induction atts arbitrary: st)
  case Nil
  then show ?case by simp
next
  case (Cons a atts)
  from Cons.prems obtain st1 where
    1: "download_attachment fs i oid folder a st = Inr st1" and
    2: "attachments_loop fs i oid folder atts st1 = Inr st'"
    by (auto split: sum.splits)
  from download_attachment_downloads [OF 1] Cons.IH [OF 2] show ?case by simp
qed

lemma process_feature_downloads:
  assumes "process_feature self fs i n indice feature st = Inr st'"
  shows "\<exists>r. row_of_feature self feature r \<and>
           downloads st' = downloads st @
             map (\<lambda>a. (i, objectid r, att_id a, local r)) (get_list fs (objectid r))"
proof -
  from assms obtain created where c: "feature ''created_date'' = Some created"
    by (auto simp: process_feature_def py_getitem_def Let_def split: option.splits)
  from assms c obtain dt where d: "utcfromtimestamp created = Inr dt"
    by (auto simp: process_feature_def py_getitem_def Let_def split: sum.splits)
  then have dt: "dt = utc_of_ms created"
    by (auto simp: utcfromtimestamp_def split: if_splits)
  from assms c d obtain final_folder where
    f: "final_folder_of self (strftime dt ''%y-%m-%d'') = Inr final_folder"
    by (auto simp: process_feature_def py_getitem_def Let_def split: sum.splits)
  from assms c d f obtain object_oid where o: "feature ''objectid'' = Some object_oid"
    by (auto simp: process_feature_def py_getitem_def Let_def
        split: option.splits sum.splits if_splits)
  let ?r ="\<lparr>objectid = object_oid, created_date = created, id_form = gp_id_form self,
             local = final_folder\<rparr>"
  from assms c d f o have "downloads st' = downloads st @
      map (\<lambda>a. (i, object_oid, att_id a, final_folder)) (get_list fs object_oid)"
    by (auto simp: process_feature_def py_getitem_def Let_def print_def
        dest!: attachments_loop_downloads split: if_splits sum.splits)
  moreover have "row_of_feature self feature ?r"
    using c o f dt by (simp add: row_of_feature_def)
  ultimately show ?thesis
    by (intro exI [of _ ?r]) simp
qed

lemma features_loop_downloads:
  "features_loop self fs i n indice features st = Inr st' \<Longrightarrow>
   (\<exists>ds. downloads st' = downloads st @ ds) \<and>
   (\<forall>f\<in>set features. \<exists>r. row_of_feature self f r \<and>
      (\<forall>a\<in>set (get_list fs (objectid r)). (i, objectid r, att_id a, local r) \<in> set (downloads st')))"
proof (induction features arbitrary: st indice)
  case Nil
  then show ?case by simp
next
  case (Cons feature features)
  from Cons.prems obtain st1 where
    1: "process_feature self fs i n indice feature st = Inr st1" and
    2: "features_loop self fs i n (Suc indice) features st1 = Inr st'"
    by (auto split: sum.splits)
  from process_feature_downloads [OF 1] obtain r where
    r: "row_of_feature self feature r"
       "downloads st1 = downloads st @
          map (\<lambda>a. (i, objectid r, att_id a, local r)) (get_list fs (objectid r))"
    by blast
  from Cons.IH [OF 2] obtain ds where
    ds: "downloads st' = downloads st1 @ ds" and
    rest: "\<forall>f\<in>set features. \<exists>r. row_of_feature self f r \<and>
      (\<forall>a\<in>set (get_list fs (objectid r)). (i, objectid r, att_id a, local r) \<in> set (downloads st'))"
    by blast
  have "\<forall>a\<in>set (get_list fs (objectid r)). (i, objectid r, att_id a, local r) \<in> set (downloads st')"
    using r(2) ds by auto
  with r(1) rest have "\<forall>f\<in>set (feature # features). \<exists>r. row_of_feature self f r \<and>
      (\<forall>a\<in>set (get_list fs (objectid r)). (i, objectid r, att_id a, local r) \<in> set (downloads st'))"
    by auto
  moreover from r(2) ds have "\<exists>ds. downloads st' = downloads st @ ds" by simp
  ultimately show ?case by blast
qed

lemma process_layer_downloads:
  assumes "process_layer self max_oid i fs st = Inr st'"
  shows "(\<exists>ds. downloads st' = downloads st @ ds) \<and>
   (hasAttachments fs \<longrightarrow>
     (\<forall>f\<in>set (query fs (photo_query max_oid)). \<exists>r. row_of_feature self f r \<and>
        (\<forall>a\<in>set (get_list fs (objectid r)). (i, objectid r, att_id a, local r) \<in> set (downloads st'))))"
proof (cases "hasAttachments fs \<and> query fs (photo_query max_oid) \<noteq> []")
  case False
  with assms show ?thesis
    by (auto simp: process_layer_def print_def Let_def split: if_splits)
next
  case True
  with assms have
    "features_loop self fs i (length (query fs (photo_query max_oid))) 0
       (query fs (photo_query max_oid)) (st\<lparr>requests := requests st @ [(i, photo_query max_oid)]\<rparr>) = Inr st'"
    by (simp add: process_layer_def Let_def)
  from features_loop_downloads [OF this] show ?thesis by simp
qed

lemma layers_loop_downloads:
  "layers_loop self max_oid k ls st = Inr st' \<Longrightarrow>
   (\<exists>ds. downloads st' = downloads st @ ds) \<and>
   (\<forall>j<length ls. hasAttachments (ls ! j) \<longrightarrow>
     (\<forall>f\<in>set (query (ls ! j) (photo_query max_oid)). \<exists>r. row_of_feature self f r \<and>
        (\<forall>a\<in>set (get_list (ls ! j) (objectid r)).
           (k + j, objectid r, att_id a, local r) \<in> set (downloads st'))))"
proof (induction ls arbitrary: st k)
  case Nil
  then show ?case by simp
next
  case (Cons fs ls)
  from Cons.prems obtain st1 where
    1: "process_layer self max_oid k fs st = Inr st1" and
    2: "layers_loop self max_oid (Suc k) ls st1 = Inr st'"
    by (auto split: sum.splits)
  from process_layer_downloads [OF 1] obtain ds1 where
    ds1: "downloads st1 = downloads st @ ds1" and
    here: "hasAttachments fs \<longrightarrow>
     (\<forall>f\<in>set (query fs (photo_query max_oid)). \<exists>r. row_of_feature self f r \<and>
        (\<forall>a\<in>set (get_list fs (objectid r)). (k, objectid r, att_id a, local r) \<in> set (downloads st1)))"
    by blast
  from Cons.IH [OF 2] obtain ds2 where
    ds2: "downloads st' = downloads st1 @ ds2" and
    rest: "\<forall>j<length ls. hasAttachments (ls ! j) \<longrightarrow>
     (\<forall>f\<in>set (query (ls ! j) (photo_query max_oid)). \<exists>r. row_of_feature self f r \<and>
        (\<forall>a\<in>set (get_list (ls ! j) (objectid r)).
           (Suc k + j, objectid r, att_id a, local r) \<in> set (downloads st')))"
    by blast
  have sub: "set (downloads st1) \<subseteq> set (downloads st')"
    using ds2 by simp
  have "hasAttachments ((fs # ls) ! j) \<longrightarrow>
     (\<forall>f\<in>set (query ((fs # ls) ! j) (photo_query max_oid)). \<exists>r. row_of_feature self f r \<and>
        (\<forall>a\<in>set (get_list ((fs # ls) ! j) (objectid r)).
           (k + j, objectid r, att_id a, local r) \<in> set (downloads st')))"
    if "j < length (fs # ls)" for j
  proof (cases j)
    case 0
    with here sub show ?thesis by (simp add: subset_iff) blast
  next
    case (Suc j')
    with that rest show ?thesis by simp
  qed
  moreover from ds1 ds2 have "\<exists>ds. downloads st' = downloads st @ ds" by simp
  ultimately show ?case by blast
qed

lemma get_photos_downloads:
  assumes "get_photos self gis_login st = Inr st'"
    and "content_get gis_login (gp_id_form self) = Some survey"
  shows "\<forall>j<length (layers survey @ tables survey).
     hasAttachments ((layers survey @ tables survey) ! j) \<longrightarrow>
     (\<forall>f\<in>set (query ((layers survey @ tables survey) ! j) (photo_query (max_oid_of st))).
        \<exists>r. row_of_feature self f r \<and>
        (\<forall>a\<in>set (get_list ((layers survey @ tables survey) ! j) (objectid r)).
           (j, objectid r, att_id a, local r) \<in> set (downloads st')))"
proof -
  let ?st2 = "(print FormToDownloadPhotos
                (case log_file st of None \<Rightarrow> print LogNotFound st | Some rows \<Rightarrow> st))
              \<lparr>new_objects_control := []\<rparr>"
  let ?rel = "layers survey @ tables survey"
  from assms(1) obtain st3 new where
    l: "layers_loop self (max_oid_of st) 0 ?rel ?st2 = Inr st3" and
    e: "st' = print AllPhotosDownloaded (st3\<lparr>log_file := Some (written_log st new)\<rparr>)"
    unfolding get_photos_unfold [OF assms(2)] Let_def
    by (auto simp: to_json_def split: sum.splits if_splits)
  from e have "downloads st' = downloads st3" by (simp add: print_def)
  with layers_loop_downloads [OF l] show ?thesis by simp
qed

lemma fold_max_ge: "(x::int) \<le> fold max ys x"
proof (induction ys arbitrary: x)
  case Nil
  show ?case by simp
next
  case (Cons y ys)
  have "x \<le> max y x" by simp
  also have "\<dots> \<le> fold max ys (max y x)" by (rule Cons.IH)
  finally show ?case by simp
qed

lemma series_max_Max: "xs \<noteq> [] \<Longrightarrow> series_max xs = Some (Max (set xs))"
  by (cases xs) (simp_all add: series_max_def Max.set_eq_fold [symmetric])

lemma series_max_append:
  "series_max xs = Some m \<Longrightarrow> \<exists>m'. series_max (xs @ ys) = Some m' \<and> m \<le> m'"
  by (cases xs) (auto simp: series_max_def fold_max_ge)

section \<open>\<^verbatim>\<open>GetPhotos\<close>: the queries, the log and the cursor\<close>

lemma enabled_positions_0:
  "enabled_positions 0 ls = filter (\<lambda>j. hasAttachments (ls ! j)) [0..<length ls]"
  by (simp add: enabled_positions_filter)

lemma completed_iff: "completed r \<longleftrightarrow> (\<exists>st'. r = Inr st')"
  by (cases r) (auto simp: completed_def)

lemma get_photos_requests_shape:
  assumes "content_get gis_login (gp_id_form self) = Some survey"
  shows "\<exists>sent. requests (final_state (get_photos self gis_login st)) = requests st @ sent \<and>
     (\<forall>(i, q)\<in>set sent. i < length (layers survey @ tables survey) \<and>
         hasAttachments ((layers survey @ tables survey) ! i) \<and>
         q = photo_query (max_oid_of st)) \<and>
     (completed (get_photos self gis_login st) \<longrightarrow>
        map fst sent = filter (\<lambda>i. hasAttachments ((layers survey @ tables survey) ! i))
                         [0..<length (layers survey @ tables survey)])"
proof -
  let ?rel = "layers survey @ tables survey"
  let ?q = "photo_query (max_oid_of st)"
  from get_photos_requests [OF assms, of st] obtain n where
    n: "requests (final_state (get_photos self gis_login st)) =
          requests st @ map (\<lambda>j. (j, ?q)) (take n (enabled_positions 0 ?rel))"
    by blast
  let ?sent = "map (\<lambda>j. (j, ?q)) (take n (enabled_positions 0 ?rel))"
  have "\<forall>(i, q)\<in>set ?sent. i < length ?rel \<and> hasAttachments (?rel ! i) \<and> q = ?q"
  proof -
    have "set (take n (enabled_positions 0 ?rel)) \<subseteq> set (enabled_positions 0 ?rel)"
      by (rule set_take_subset)
    then have "\<forall>j\<in>set (take n (enabled_positions 0 ?rel)). j < length ?rel \<and> hasAttachments (?rel ! j)"
      unfolding enabled_positions_0 by auto
    then show ?thesis by auto
  qed
  moreover have "map fst ?sent = filter (\<lambda>i. hasAttachments (?rel ! i)) [0..<length ?rel]"
    if "completed (get_photos self gis_login st)"
  proof -
    from that obtain st' where st': "get_photos self gis_login st = Inr st'"
      by (auto simp: completed_iff)
    from get_photos_completed [OF st'] assms
    have "requests st' = requests st @ map (\<lambda>j. (j, ?q)) (enabled_positions 0 ?rel)"
      by auto
    with n st' have "?sent = map (\<lambda>j. (j, ?q)) (enabled_positions 0 ?rel)"
      by simp
    then show ?thesis
      by (simp add: comp_def enabled_positions_0)
  qed
  ultimately show ?thesis using n by blast
qed

text \<open>
  Claim C1. When the log has rows and \<open>M\<close> is the greatest objectid among them, every
  query a run of \<^verbatim>\<open>get_photos\<close> sends, whether the run returns or raises, goes to a layer
  or table that has attachments and asks for \<^verbatim>\<open>objectid > M\<close>, ordered by
  \<^verbatim>\<open>objectid ASC\<close>, with \<^verbatim>\<open>created_date\<close> as the only output field; a run that returns has
  queried each layer and table that has attachments, once and in order.
\<close>

theorem C1_queries_above_max:
  assumes "log_file st = Some rows" and "rows \<noteq> []"
    and "content_get gis_login (gp_id_form self) = Some survey"
  shows "\<exists>sent. requests (final_state (get_photos self gis_login st)) = requests st @ sent \<and>
     (\<forall>(i, q)\<in>set sent. i < length (layers survey @ tables survey) \<and>
         hasAttachments ((layers survey @ tables survey) ! i) \<and>
         q = \<lparr>out_fields = ''created_date'',
              where_clause = ''objectid > '' @ str_int (Max (set (map objectid rows))),
              return_geometry = False,
              order_by_fields = ''objectid ASC''\<rparr>) \<and>
     (completed (get_photos self gis_login st) \<longrightarrow>
        map fst sent = filter (\<lambda>i. hasAttachments ((layers survey @ tables survey) ! i))
                         [0..<length (layers survey @ tables survey)])"
proof -
  from assms(1,2) have "max_oid_of st = Some (Max (set (map objectid rows)))"
    by (simp add: max_oid_of_def series_max_Max)
  then have "photo_query (max_oid_of st) =
      \<lparr>out_fields = ''created_date'',
       where_clause = ''objectid > '' @ str_int (Max (set (map objectid rows))),
       return_geometry = False, order_by_fields = ''objectid ASC''\<rparr>"
    by (simp add: photo_query_def str_max_oid_def)
  with get_photos_requests_shape [OF assms(3), of st] show ?thesis
    by simp
qed

lemma ex_run5:
  "completed (get_photos ex_photos ex_portal ex_state5)"
  "requests (final_state (get_photos ex_photos ex_portal ex_state5)) =
     [(0, \<lparr>out_fields = ''created_date'', where_clause = ''objectid > 5'',
           return_geometry = False, order_by_fields = ''objectid ASC''\<rparr>)]"
  by code_simp+

text \<open>The small portal with record 5 in the log: one query, for \<^verbatim>\<open>objectid > 5\<close>.\<close>

theorem C1_queries_above_max_witness:
  "log_file ex_state5 = Some [ex_row5] \<and> [ex_row5] \<noteq> [] \<and>
   content_get ex_portal (gp_id_form ex_photos) = Some ex_survey \<and>
   Max (set (map objectid [ex_row5])) = 5 \<and>
   completed (get_photos ex_photos ex_portal ex_state5) \<and>
   requests (final_state (get_photos ex_photos ex_portal ex_state5)) =
     requests ex_state5 @
     [(0, \<lparr>out_fields = ''created_date'', where_clause = ''objectid > 5'',
           return_geometry = False, order_by_fields = ''objectid ASC''\<rparr>)] \<and>
   filter (\<lambda>i. hasAttachments ((layers ex_survey @ tables ex_survey) ! i))
     [0..<length (layers ex_survey @ tables ex_survey)] = [0]"
proof -
  have h1: "log_file ex_state5 = Some [ex_row5]"
    by (simp add: ex_state5_def)
  have h2: "[ex_row5] \<noteq> []"
    by simp
  have h3: "content_get ex_portal (gp_id_form ex_photos) = Some ex_survey"
    by (simp add: ex_portal_def ex_photos_def)
  have m: "Max (set (map objectid [ex_row5])) = 5"
    by (simp add: ex_row5_def)
  have r: "requests ex_state5 = []"
    by (simp add: ex_state5_def ex_state0_def)
  have f: "filter (\<lambda>i. hasAttachments ((layers ex_survey @ tables ex_survey) ! i))
     [0..<length (layers ex_survey @ tables ex_survey)] = [0]"
    by (simp add: ex_survey_def ex_layer_def ex_table_def upt_conv_Cons)
  from C1_queries_above_max [OF h1 h2 h3] h1 h3 m r f ex_run5 show ?thesis
    by simp
qed

lemma completed_final_state: "completed r \<Longrightarrow> r = Inr (final_state r)"
  by (cases r) (auto simp: completed_def)

lemma list_all2_setD2:
  "list_all2 P xs ys \<Longrightarrow> y \<in> set ys \<Longrightarrow> \<exists>x\<in>set xs. P x y"
  by (induction rule: list_all2_induct) auto

lemma str_int_0: "str_int 0 = ''0''"
  by (simp add: str_int_def str_nat.simps digit_char_def)

text \<open>
  Claim C2, as the code has it. A run that returns has added to the log one row for
  every record the queries to the layers and tables with attachments returned, in
  that order, with the record's objectid and creation date, the form and the folder;
  whether the record itself has attachments plays no part.
\<close>

theorem C2_one_row_per_queried_record:
  assumes "get_photos self gis_login st = Inr st'"
  shows "\<exists>survey new.
           content_get gis_login (gp_id_form self) = Some survey \<and>
           log_file st' = Some (written_log st new) \<and>
           list_all2 (row_of_feature self)
             (queried_features (max_oid_of st) (layers survey @ tables survey))
             (new_objects_control st') \<and>
           list_all2 formatted_row (new_objects_control st') new \<and>
           length new = length (queried_features (max_oid_of st) (layers survey @ tables survey))"
proof -
  from get_photos_completed [OF assms] obtain survey new where
    *: "content_get gis_login (gp_id_form self) = Some survey"
       "log_file st' = Some (written_log st new)"
       "list_all2 (row_of_feature self)
          (queried_features (max_oid_of st) (layers survey @ tables survey))
          (new_objects_control st')"
       "format_rows (new_objects_control st') = Inr new"
    by blast
  from format_rows_formatted [OF *(4)]
  have f: "list_all2 formatted_row (new_objects_control st') new" .
  from *(3) f have "length new = length (queried_features (max_oid_of st) (layers survey @ tables survey))"
    by (simp add: list_all2_lengthD)
  with * f show ?thesis by blast
qed

lemma ex_run0:
  "completed (get_photos ex_photos ex_portal ex_state0)"
  "log_file (final_state (get_photos ex_photos ex_portal ex_state0)) = Some [ex_row5, ex_row7]"
  "requests (final_state (get_photos ex_photos ex_portal ex_state0)) =
     [(0, \<lparr>out_fields = ''created_date'', where_clause = ''objectid > 0'',
           return_geometry = False, order_by_fields = ''objectid ASC''\<rparr>)]"
  "stdout (final_state (get_photos ex_photos ex_portal ex_state0)) =
     [LogNotFound, FormToDownloadPhotos, DownloadingPhoto 1 2, DownloadingPhoto 2 2,
      FileAlreadyExists 7 ''./photos/f/23-06-06/q.png'', AllPhotosDownloaded]"
  "downloads (final_state (get_photos ex_photos ex_portal ex_state0)) =
     [(0, 7, 1, ''./photos/f/23-06-06''), (0, 7, 2, ''./photos/f/23-06-06'')]"
  by code_simp+

lemma ex_queried0:
  "queried_features (max_oid_of ex_state0) (layers ex_survey @ tables ex_survey) = [ex_f5, ex_f7]"
  by (simp add: queried_features_def max_oid_of_def ex_state0_def ex_survey_def ex_layer_def
      ex_table_def photo_query_def str_max_oid_def str_int_0)

text \<open>The first run on the small portal: the records 5 and 7 are returned and logged.\<close>

theorem C2_one_row_per_queried_record_witness:
  "get_photos ex_photos ex_portal ex_state0 =
     Inr (final_state (get_photos ex_photos ex_portal ex_state0)) \<and>
   content_get ex_portal (gp_id_form ex_photos) = Some ex_survey \<and>
   queried_features (max_oid_of ex_state0) (layers ex_survey @ tables ex_survey) = [ex_f5, ex_f7] \<and>
   log_file ex_state0 = None \<and>
   log_file (final_state (get_photos ex_photos ex_portal ex_state0)) = Some [ex_row5, ex_row7]"
proof -
  have h: "get_photos ex_photos ex_portal ex_state0 =
     Inr (final_state (get_photos ex_photos ex_portal ex_state0))"
    by (rule completed_final_state) (rule ex_run0)
  have p: "log_file ex_state0 = None"
    by (simp add: ex_state0_def)
  have s: "content_get ex_portal (gp_id_form ex_photos) = Some ex_survey"
    by (simp add: ex_portal_def ex_photos_def)
  from C2_one_row_per_queried_record [OF h] h p s ex_queried0 ex_run0(2) show ?thesis
    by simp
qed

text \<open>
  Claim C2 as the specification words it fails: record 5 has no attachment, and the
  run writes a row for it.
\<close>

theorem C2_counterexample:
  "query ex_layer (photo_query (Some 0)) = [ex_f5, ex_f7] \<and>
   ex_f5 ''objectid'' = Some 5 \<and>
   get_list ex_layer 5 = [] \<and>
   completed (get_photos ex_photos ex_portal ex_state0) \<and>
   log_file ex_state0 = None \<and>
   log_file (final_state (get_photos ex_photos ex_portal ex_state0)) = Some [ex_row5, ex_row7] \<and>
   objectid ex_row5 = 5"
proof -
  have "query ex_layer (photo_query (Some 0)) = [ex_f5, ex_f7]"
    by (simp add: ex_layer_def photo_query_def str_max_oid_def str_int_0)
  moreover have "ex_f5 ''objectid'' = Some 5" "get_list ex_layer 5 = []"
    "log_file ex_state0 = None" "objectid ex_row5 = 5"
    by (simp_all add: ex_f5_def ex_layer_def ex_state0_def ex_row5_def)
  ultimately show ?thesis using ex_run0(1,2) by simp
qed

section \<open>The calendar fields and the shape of a formatted date\<close>

lemma month_index: "0 \<le> (n::int) \<Longrightarrow> n \<le> 364 \<Longrightarrow> 1 \<le> (n + 50) div 32 \<and> (n + 50) div 32 \<le> 12"
  by linarith

lemma month_range: "(n + 50) div 32 = (k::int) \<Longrightarrow> 32 * k - 50 \<le> n \<and> n \<le> 32 * k - 19"
  by linarith

lemma month_day_bounds:
  assumes "0 \<le> n" "n \<le> 364"
  shows "1 \<le> fst (month_day l n) \<and> fst (month_day l n) \<le> 12 \<and>
         1 \<le> snd (month_day l n) \<and> snd (month_day l n) \<le> 31"
proof -
  define k where "k = (n + 50) div 32"
  from month_index [OF assms] have "1 \<le> k" "k \<le> 12"
    by (simp_all add: k_def)
  then have "k \<in> {1,2,3,4,5,6,7,8,9,10,11,12}"
    by simp presburger
  moreover from month_range [of n k] have r: "32 * k - 50 \<le> n" "n \<le> 32 * k - 19"
    by (simp_all add: k_def)
  ultimately show ?thesis
    using assms
    unfolding month_day_def Let_def k_def [symmetric] DAYS_BEFORE_MONTH_def DAYS_IN_MONTH_def
    by (elim insertE emptyE) auto
qed

lemma ord2ymd_bounds:
  assumes "612410 \<le> ordinal - 1" "ordinal - 1 \<le> 825913"
  shows "1000 \<le> fst (ord2ymd ordinal) \<and> fst (ord2ymd ordinal) \<le> 9999 \<and>
         1 \<le> fst (snd (ord2ymd ordinal)) \<and> fst (snd (ord2ymd ordinal)) \<le> 12 \<and>
         1 \<le> snd (snd (ord2ymd ordinal)) \<and> snd (snd (ord2ymd ordinal)) \<le> 31"
proof -
  define n where "n = ordinal - 1"
  define n400 where "n400 = n div 146097"
  define r1 where "r1 = n mod 146097"
  define n100 where "n100 = r1 div 36524"
  define r2 where "r2 = r1 mod 36524"
  define n4 where "n4 = r2 div 1461"
  define r3 where "r3 = r2 mod 1461"
  define n1 where "n1 = r3 div 365"
  define r4 where "r4 = r3 mod 365"
  define y where "y = n400 * 400 + 1 + n100 * 100 + n4 * 4 + n1"
  from assms have "4 \<le> n400" "n400 \<le> 5"
    unfolding n400_def n_def by linarith+
  moreover have "0 \<le> r1" "r1 \<le> 146096"
    unfolding r1_def by simp_all
  then have "0 \<le> n100" "n100 \<le> 4"
    unfolding n100_def by linarith+
  moreover have "0 \<le> r2" "r2 \<le> 36523"
    unfolding r2_def by simp_all
  then have "0 \<le> n4" "n4 \<le> 24"
    unfolding n4_def by linarith+
  moreover have "0 \<le> r3" "r3 \<le> 1460"
    unfolding r3_def by simp_all
  then have "0 \<le> n1" "n1 \<le> 4"
    unfolding n1_def by linarith+
  ultimately have y: "1601 \<le> y" "y \<le> 2501"
    unfolding y_def by linarith+
  have r4: "0 \<le> r4" "r4 \<le> 364"
    unfolding r4_def by simp_all
  have eq: "ord2ymd ordinal =
      (if n1 = 4 \<or> n100 = 4 then (y - 1, 12, 31)
       else (y, month_day (n1 = 3 \<and> (n4 \<noteq> 24 \<or> n100 = 3)) r4))"
    unfolding ord2ymd_def Let_def y_def r4_def n1_def r3_def n4_def r2_def n100_def r1_def
      n400_def n_def
    by simp
  show ?thesis
    using y month_day_bounds [OF r4, of "n1 = 3 \<and> (n4 \<noteq> 24 \<or> n100 = 3)"]
    unfolding eq
    by (cases "n1 = 4 \<or> n100 = 4") (simp_all add: split_beta)
qed

lemma utc_of_ms_bounds:
  assumes "- 9223372036854 \<le> ms" "ms \<le> 9223372036854"
  shows "1000 \<le> year (utc_of_ms ms) \<and> year (utc_of_ms ms) \<le> 9999 \<and>
         1 \<le> month (utc_of_ms ms) \<and> month (utc_of_ms ms) \<le> 12 \<and>
         1 \<le> day (utc_of_ms ms) \<and> day (utc_of_ms ms) \<le> 31 \<and>
         0 \<le> hour (utc_of_ms ms) \<and> hour (utc_of_ms ms) \<le> 23 \<and>
         0 \<le> minute (utc_of_ms ms) \<and> minute (utc_of_ms ms) \<le> 59 \<and>
         0 \<le> second (utc_of_ms ms) \<and> second (utc_of_ms ms) \<le> 59"
proof -
  define days where "days = ms div 86400000"
  define secs where "secs = (ms mod 86400000) div 1000"
  from assms have d: "612410 \<le> (days + 719163) - 1" "(days + 719163) - 1 \<le> 825913"
    unfolding days_def by linarith+
  have "0 \<le> ms mod 86400000" "ms mod 86400000 \<le> 86399999"
    by simp_all
  then have s: "0 \<le> secs" "secs \<le> 86399"
    unfolding secs_def by linarith+
  then have h: "0 \<le> secs div 3600" "secs div 3600 \<le> 23"
    by linarith+
  have m: "0 \<le> (secs mod 3600) div 60" "(secs mod 3600) div 60 \<le> 59"
    by linarith+
  have c: "0 \<le> secs mod 60" "secs mod 60 \<le> 59"
    by simp_all
  have eq: "utc_of_ms ms =
      \<lparr>year = fst (ord2ymd (days + 719163)), month = fst (snd (ord2ymd (days + 719163))),
       day = snd (snd (ord2ymd (days + 719163))),
       hour = secs div 3600, minute = (secs mod 3600) div 60, second = secs mod 60\<rparr>"
    unfolding utc_of_ms_def Let_def days_def secs_def
    by (simp add: split_beta)
  show ?thesis
    unfolding eq using ord2ymd_bounds [OF d] h m c by simp
qed

lemma is_digit_digit_char: "d < 10 \<Longrightarrow> is_digit (digit_char d)"
  unfolding is_digit_def digit_char_def by (rule nth_mem) simp

lemma str_nat_1: "n < 10 \<Longrightarrow> str_nat n = [digit_char n]"
  by (simp add: str_nat.simps)

lemma str_nat_2: "10 \<le> n \<Longrightarrow> n < 100 \<Longrightarrow> str_nat n = [digit_char (n div 10), digit_char (n mod 10)]"
  by (subst str_nat.simps) (simp add: str_nat_1)

lemma str_nat_3:
  "100 \<le> n \<Longrightarrow> n < 1000 \<Longrightarrow>
   str_nat n = [digit_char (n div 10 div 10), digit_char (n div 10 mod 10), digit_char (n mod 10)]"
  by (subst str_nat.simps) (simp add: str_nat_2)

lemma str_nat_4:
  "1000 \<le> n \<Longrightarrow> n < 10000 \<Longrightarrow>
   str_nat n = [digit_char (n div 10 div 10 div 10), digit_char (n div 10 div 10 mod 10),
                digit_char (n div 10 mod 10), digit_char (n mod 10)]"
  by (subst str_nat.simps) (simp add: str_nat_3)

lemma pad2_shape:
  assumes "0 \<le> v" "v \<le> 99"
  shows "\<exists>a b. pad2 v = [a, b] \<and> is_digit a \<and> is_digit b"
proof (cases "v < 10")
  case True
  with assms have "pad2 v = [CHR ''0'', digit_char (nat v)]"
    by (simp add: pad2_def str_int_def str_nat_1)
  moreover have "is_digit CHR ''0''" by (simp add: is_digit_def)
  moreover from True assms have "is_digit (digit_char (nat v))"
    by (intro is_digit_digit_char) simp
  ultimately show ?thesis by blast
next
  case False
  with assms have "pad2 v = [digit_char (nat v div 10), digit_char (nat v mod 10)]"
    by (simp add: pad2_def str_int_def str_nat_2)
  moreover from assms have "is_digit (digit_char (nat v div 10))"
    by (intro is_digit_digit_char) linarith
  moreover have "is_digit (digit_char (nat v mod 10))"
    by (intro is_digit_digit_char) simp
  ultimately show ?thesis by blast
qed

lemma year_shape:
  assumes "1000 \<le> y" "y \<le> 9999"
  shows "\<exists>a b c d. str_int y = [a, b, c, d] \<and> is_digit a \<and> is_digit b \<and> is_digit c \<and> is_digit d"
proof -
  from assms have "str_int y = [digit_char (nat y div 10 div 10 div 10),
      digit_char (nat y div 10 div 10 mod 10), digit_char (nat y div 10 mod 10),
      digit_char (nat y mod 10)]"
    by (simp add: str_int_def str_nat_4)
  moreover from assms have "is_digit (digit_char (nat y div 10 div 10 div 10))"
    by (intro is_digit_digit_char) linarith
  moreover have "is_digit (digit_char (nat y div 10 div 10 mod 10))"
    "is_digit (digit_char (nat y div 10 mod 10))" "is_digit (digit_char (nat y mod 10))"
    by (intro is_digit_digit_char; simp)+
  ultimately show ?thesis by blast
qed

lemma strftime_log_format:
  "strftime dt ''%d/%m/%Y %H:%M:%S'' =
     pad2 (day dt) @ ''/'' @ pad2 (month dt) @ ''/'' @ str_int (year dt) @ '' '' @
     pad2 (hour dt) @ '':'' @ pad2 (minute dt) @ '':'' @ pad2 (second dt)"
  by (simp add: directive_def)

lemma to_datetime_shape:
  assumes "to_datetime ms = Inr dt"
  shows "has_shape (strftime dt ''%d/%m/%Y %H:%M:%S'') ''DD/DD/DDDD DD:DD:DD''"
proof -
  from assms have r: "- 9223372036854 \<le> ms" "ms \<le> 9223372036854" and dt: "dt = utc_of_ms ms"
    by (auto simp: to_datetime_def split: if_splits)
  note b = utc_of_ms_bounds [OF r, folded dt]
  from b pad2_shape [of "day dt"] obtain d1 d2 where
    d: "pad2 (day dt) = [d1, d2]" "is_digit d1" "is_digit d2" by auto
  from b pad2_shape [of "month dt"] obtain m1 m2 where
    m: "pad2 (month dt) = [m1, m2]" "is_digit m1" "is_digit m2" by auto
  from b year_shape [of "year dt"] obtain y1 y2 y3 y4 where
    y: "str_int (year dt) = [y1, y2, y3, y4]" "is_digit y1" "is_digit y2" "is_digit y3" "is_digit y4"
    by auto
  from b pad2_shape [of "hour dt"] obtain h1 h2 where
    h: "pad2 (hour dt) = [h1, h2]" "is_digit h1" "is_digit h2" by auto
  from b pad2_shape [of "minute dt"] obtain n1 n2 where
    n: "pad2 (minute dt) = [n1, n2]" "is_digit n1" "is_digit n2" by auto
  from b pad2_shape [of "second dt"] obtain s1 s2 where
    s: "pad2 (second dt) = [s1, s2]" "is_digit s1" "is_digit s2" by auto
  show ?thesis
    unfolding strftime_log_format d(1) m(1) y(1) h(1) n(1) s(1)
    using d(2,3) m(2,3) y(2-5) h(2,3) n(2,3) s(2,3) by simp
qed

lemma format_rows_shape:
  "format_rows rows = Inr rows' \<Longrightarrow>
   \<forall>r\<in>set rows'. \<exists>s. created_date r = Str s \<and> has_shape s ''DD/DD/DDDD DD:DD:DD''"
proof (induction rows arbitrary: rows')
  case Nil
  then show ?case by simp
next
  case (Cons r rows)
  from Cons.prems obtain r' rs' where
    1: "format_row r = Inr r'" and 2: "format_rows rows = Inr rs'" and 3: "rows' = r' # rs'"
    by (auto split: sum.splits)
  from 1 obtain dt where "to_datetime (created_date r) = Inr dt"
    and "created_date r' = Str (strftime dt ''%d/%m/%Y %H:%M:%S'')"
    by (auto simp: format_row_def split: sum.splits)
  with to_datetime_shape
  have "\<exists>s. created_date r' = Str s \<and> has_shape s ''DD/DD/DDDD DD:DD:DD''"
    by simp
  with Cons.IH [OF 2] 3 show ?case by simp
qed

section \<open>\<^verbatim>\<open>GetPhotos\<close>: renaming a downloaded file\<close>

lemma str_replace_ne_absent:
  "\<not> contains s old \<Longrightarrow> str_replace_ne old new s = s"
proof (induction s)
  case Nil
  show ?case by (simp add: str_replace_ne.simps)
next
  case (Cons c cs)
  then have "\<not> startswith (c # cs) old" "str_replace_ne old new cs = cs"
    by simp_all
  then show ?case
    by (subst str_replace_ne.simps) simp
qed

lemma jpg_no_straddle:
  assumes "\<not> startswith s ''.jpg''" "s \<noteq> []"
  shows "\<not> startswith (s @ ''.jpg'') ''.jpg''"
proof (cases "4 \<le> length s")
  case True
  with assms(1) show ?thesis by (simp add: startswith_def)
next
  case False
  then consider a where "s = [a]" | a b where "s = [a, b]" | a b c where "s = [a, b, c]"
    using assms(2)
    by (cases s; cases "tl s"; cases "tl (tl s)"; cases "tl (tl (tl s))") auto
  then show ?thesis
  proof cases
    case 1
    then show ?thesis by (auto simp: startswith_def)
  next
    case 2
    then show ?thesis by (auto simp: startswith_def)
  next
    case 3
    then show ?thesis by (auto simp: startswith_def)
  qed
qed

lemma str_replace_ne_jpg_suffix:
  "\<not> contains stem ''.jpg'' \<Longrightarrow> str_replace_ne ''.jpg'' new (stem @ ''.jpg'') = stem @ new"
proof (induction stem)
  case Nil
  have "str_replace_ne ''.jpg'' new ''.jpg'' = new @ str_replace_ne ''.jpg'' new []"
    by (subst str_replace_ne.simps) (simp add: startswith_def)
  then show ?case by (simp add: str_replace_ne.simps [of _ _ "[]"])
next
  case (Cons c cs)
  then have 1: "\<not> startswith (c # cs) ''.jpg''" and 2: "\<not> contains cs ''.jpg''"
    by simp_all
  from jpg_no_straddle [OF 1] have "\<not> startswith ((c # cs) @ ''.jpg'') ''.jpg''"
    by simp
  then have "str_replace_ne ''.jpg'' new ((c # cs) @ ''.jpg'') =
      c # str_replace_ne ''.jpg'' new (cs @ ''.jpg'')"
    by (subst str_replace_ne.simps) simp
  with Cons.IH [OF 2] show ?case by simp
qed

lemma str_replace_jpg_absent:
  "\<not> contains s ''.jpg'' \<Longrightarrow> str_replace s ''.jpg'' new = s"
  by (simp add: str_replace_def str_replace_ne_absent)

lemma str_replace_jpg_suffix:
  "\<not> contains stem ''.jpg'' \<Longrightarrow> str_replace (stem @ ''.jpg'') ''.jpg'' new = stem @ new"
  by (simp add: str_replace_def str_replace_ne_jpg_suffix)


end
